theory Spec2Isabelle
  imports Complex_Main
begin

section \<open>EANet notebook: the model-building code as functions on symbolic tensors\<close>

text \<open>
  The notebook \<^verbatim>\<open>examples/vision/ipynb/eanet.ipynb\<close> builds a Keras model with the
  functional API: every call \<^verbatim>\<open>layers.Dense(n)(x)\<close>, \<^verbatim>\<open>tf.reshape(x, s)\<close>, ... takes a
  symbolic tensor, checks its shape, and returns a new symbolic tensor that records the
  layer and the tensors it was applied to. The embedding keeps exactly that: a tensor is a
  shape together with the graph node that produced it, and a call either fails with the
  exception the framework raises or returns the new tensor.

  Shapes are concrete: the batch axis, which Keras leaves open until data arrives, is a
  number like every other axis, so a shape describes the tensor of one run.
  Python integers are \<^typ>\<open>int\<close>; axis lengths are \<^typ>\<open>nat\<close>.
\<close>

subsection \<open>Errors and Python arithmetic\<close>

datatype error = AssertionError | ZeroDivisionError | ValueError | InvalidArgumentError

definition bindE :: "error + 'a \<Rightarrow> ('a \<Rightarrow> error + 'b) \<Rightarrow> error + 'b" where
  "bindE m f = (case m of Inl e \<Rightarrow> Inl e | Inr v \<Rightarrow> f v)"

text \<open>Python's \<^verbatim>\<open>%\<close> and \<^verbatim>\<open>//\<close> on integers: floor semantics (as \<open>mod\<close> and \<open>div\<close> on
  \<^typ>\<open>int\<close>), and ZeroDivisionError for a zero divisor.\<close>

definition py_mod :: "int \<Rightarrow> int \<Rightarrow> error + int" where
  "py_mod a b = (if b = 0 then Inl ZeroDivisionError else Inr (a mod b))"

definition py_floordiv :: "int \<Rightarrow> int \<Rightarrow> error + int" where
  "py_floordiv a b = (if b = 0 then Inl ZeroDivisionError else Inr (a div b))"

subsection \<open>Layers and the graph of symbolic tensors\<close>

datatype activation = Linear | Gelu | SoftmaxActivation

text \<open>One constructor per framework layer or TensorFlow operation the notebook calls, with
  the arguments the notebook passes.\<close>

datatype layer =
    Dense int activation
  | Reshape "int list"
  | Transpose "nat list"
  | Softmax int
  | ReduceSumKeepdims int
  | AddScalar real
  | Divide
  | Dropout real
  | LayerNormalization real
  | MultiHeadAttention int int real
  | Add
  | GlobalAvgPool1D
  | PatchExtractLayer int
  | PatchEmbeddingLayer int int
  | Normalization
  | RandomFlip
  | RandomRotation real
  | RandomContrast real
  | RandomZoom real real

datatype node = Input "nat list" | Call layer "node list"

record ktensor =
  shape :: "nat list"
  node :: node

subsection \<open>Shape rules of the framework operations\<close>

text \<open>Broadcasting of two shapes, aligned at the last axis: equal lengths agree, a length of
  1 stretches, anything else is an error.\<close>

fun broadcast_rev :: "nat list \<Rightarrow> nat list \<Rightarrow> error + nat list" where
  "broadcast_rev [] ys = Inr ys"
| "broadcast_rev (x # xs) [] = Inr (x # xs)"
| "broadcast_rev (x # xs) (y # ys) =
     (if x = y \<or> y = 1 then bindE (broadcast_rev xs ys) (\<lambda>r. Inr (x # r))
      else if x = 1 then bindE (broadcast_rev xs ys) (\<lambda>r. Inr (y # r))
      else Inl InvalidArgumentError)"

definition broadcast :: "nat list \<Rightarrow> nat list \<Rightarrow> error + nat list" where
  "broadcast s1 s2 = bindE (broadcast_rev (rev s1) (rev s2)) (\<lambda>r. Inr (rev r))"

text \<open>A Python axis number: negative axes count from the end.\<close>

definition norm_axis :: "int \<Rightarrow> nat \<Rightarrow> error + nat" where
  "norm_axis a rank =
     (let j = (if a < 0 then int rank + a else a)
      in if 0 \<le> j \<and> j < int rank then Inr (nat j) else Inl ValueError)"

text \<open>\<^verbatim>\<open>tf.reshape\<close>: the element count is kept; one target entry may be -1 and is then
  inferred, which fails when the other entries do not divide the element count or
  multiply to zero.\<close>

definition reshape_shape :: "nat list \<Rightarrow> int list \<Rightarrow> error + nat list" where
  "reshape_shape s tgt =
     (let total = prod_list s;
          known = prod_list (map nat (filter (\<lambda>d. d \<noteq> -1) tgt))
      in if list_ex (\<lambda>d. d < -1) tgt \<or> 1 < length (filter (\<lambda>d. d = -1) tgt)
         then Inl InvalidArgumentError
         else if list_ex (\<lambda>d. d = -1) tgt
         then (if known = 0 \<or> total mod known \<noteq> 0 then Inl InvalidArgumentError
               else Inr (map (\<lambda>d. if d = -1 then total div known else nat d) tgt))
         else (if known = total then Inr (map nat tgt) else Inl InvalidArgumentError))"

text \<open>\<^verbatim>\<open>tf.transpose\<close> with an explicit permutation of the axes.\<close>

definition transpose_shape :: "nat list \<Rightarrow> nat list \<Rightarrow> error + nat list" where
  "transpose_shape s perm =
     (if length perm = length s \<and> distinct perm \<and> list_all (\<lambda>i. i < length s) perm
      then Inr (map (\<lambda>i. s ! i) perm) else Inl InvalidArgumentError)"

text \<open>\<^verbatim>\<open>tf.image.extract_patches\<close> with \<^verbatim>\<open>padding="VALID"\<close> and stride equal to the patch
  size: the number of whole patches along an axis of length \<open>n\<close>.\<close>

definition valid_out :: "nat \<Rightarrow> nat \<Rightarrow> nat" where
  "valid_out n p = (if n < p then 0 else (n - p) div p + 1)"

text \<open>\<^verbatim>\<open>layers.Dense(units)\<close> replaces the last axis; it rejects a negative width and an
  input of rank below 2.\<close>

definition dense_shape :: "int \<Rightarrow> nat list \<Rightarrow> error + nat list" where
  "dense_shape units s =
     (if units < 0 \<or> length s < 2 then Inl ValueError else Inr (butlast s @ [nat units]))"

text \<open>The output shape of each layer on the shapes of its inputs. \<open>PatchExtractLayer\<close> and
  \<open>PatchEmbeddingLayer\<close> are the notebook's own layers (cell 11): the first reshapes the
  extracted patches to \<^verbatim>\<open>patch_num * patch_num\<close> patches, the second adds the embedding
  of the positions \<^verbatim>\<open>0 ... num_patch - 1\<close>, of shape \<open>[num_patch, embed_dim]\<close>, to the
  projected patches; an embedding table needs positive sizes.\<close>

fun layer_shape :: "layer \<Rightarrow> nat list list \<Rightarrow> error + nat list" where
  "layer_shape (Dense units act) [s] = dense_shape units s"
| "layer_shape (Reshape tgt) [s] = reshape_shape s tgt"
| "layer_shape (Transpose perm) [s] = transpose_shape s perm"
| "layer_shape (Softmax axis) [s] = bindE (norm_axis axis (length s)) (\<lambda>a. Inr s)"
| "layer_shape (ReduceSumKeepdims axis) [s] =
     bindE (norm_axis axis (length s)) (\<lambda>a. Inr (s[a := 1]))"
| "layer_shape (AddScalar c) [s] = Inr s"
| "layer_shape Divide [s1, s2] = broadcast s1 s2"
| "layer_shape (Dropout rate) [s] =
     (if 0 \<le> rate \<and> rate < 1 then Inr s else Inl ValueError)"
| "layer_shape (LayerNormalization eps) [s] = (if s = [] then Inl ValueError else Inr s)"
| "layer_shape (MultiHeadAttention heads key_dim rate) [q, v] =
     (if heads \<le> 0 \<or> key_dim \<le> 0 \<or> \<not> (0 \<le> rate \<and> rate < 1) \<or> length q < 3
         \<or> length v \<noteq> length q \<or> hd v \<noteq> hd q \<or> last v \<noteq> last q
      then Inl ValueError else Inr q)"
| "layer_shape Add [s1, s2] = broadcast s1 s2"
| "layer_shape GlobalAvgPool1D [s] =
     (case s of [b, n, c] \<Rightarrow> Inr [b, c] | _ \<Rightarrow> Inl ValueError)"
| "layer_shape (PatchExtractLayer p) [s] =
     (case s of
        [b, h, w, c] \<Rightarrow>
          if p \<le> 0 then Inl ValueError
          else let patch_dim = nat p * nat p * c; patch_num = valid_out h (nat p)
               in reshape_shape [b, patch_num, valid_out w (nat p), patch_dim]
                    [int b, int patch_num * int patch_num, int patch_dim]
      | _ \<Rightarrow> Inl ValueError)"
| "layer_shape (PatchEmbeddingLayer num_patch embed_dim) [s] =
     (if num_patch \<le> 0 \<or> embed_dim \<le> 0 then Inl ValueError
      else bindE (dense_shape embed_dim s)
             (\<lambda>proj. broadcast proj [nat num_patch, nat embed_dim]))"
| "layer_shape Normalization [s] = Inr s"
| "layer_shape RandomFlip [s] = Inr s"
| "layer_shape (RandomRotation f) [s] = Inr s"
| "layer_shape (RandomContrast f) [s] = Inr s"
| "layer_shape (RandomZoom hfac wfac) [s] = Inr s"
| "layer_shape l ss = Inl ValueError"

text \<open>Calling a layer on symbolic tensors: the shape rule decides, and the result records
  the layer and its inputs.\<close>

definition call :: "layer \<Rightarrow> ktensor list \<Rightarrow> error + ktensor" where
  "call l xs =
     bindE (layer_shape l (map shape xs))
       (\<lambda>s. Inr \<lparr>shape = s, node = Call l (map node xs)\<rparr>)"

definition Input_layer :: "nat list \<Rightarrow> ktensor" where
  "Input_layer s = \<lparr>shape = s, node = Input s\<rparr>"

subsection \<open>The notebook's functions\<close>

text \<open>\<^verbatim>\<open>external_attention\<close> (cell 13). The tuple assignment from \<^verbatim>\<open>x.shape\<close> needs a
  tensor of rank 3; \<^verbatim>\<open>num_heads\<close> is rebound to \<^verbatim>\<open>num_heads * dim_coefficient\<close>
  after the assertion, and every later use reads the rebound value (\<open>num_heads'\<close> below).
  The parameter \<^verbatim>\<open>dim\<close> is written \<open>dim'\<close>.\<close>

definition external_attention ::
  "ktensor \<Rightarrow> int \<Rightarrow> int \<Rightarrow> int \<Rightarrow> real \<Rightarrow> real \<Rightarrow> error + ktensor" where
  "external_attention x dim' num_heads dim_coefficient attention_dropout projection_dropout =
     (case shape x of
        [b, num_patch, channel] \<Rightarrow>
          bindE (py_mod dim' num_heads) (\<lambda>r.
          if r \<noteq> 0 then Inl AssertionError
          else
            let num_heads' = num_heads * dim_coefficient in
            bindE (call (Dense (dim' * dim_coefficient) Linear) [x]) (\<lambda>x1.
            bindE (py_floordiv (dim' * dim_coefficient) num_heads') (\<lambda>w.
            bindE (call (Reshape [-1, int num_patch, num_heads', w]) [x1]) (\<lambda>x2.
            bindE (call (Transpose [0, 2, 1, 3]) [x2]) (\<lambda>x3.
            bindE (py_floordiv dim' dim_coefficient) (\<lambda>u.
            bindE (call (Dense u Linear) [x3]) (\<lambda>attn1.
            bindE (call (Softmax 2) [attn1]) (\<lambda>attn2.
            bindE (call (ReduceSumKeepdims (-1)) [attn2]) (\<lambda>s1.
            bindE (call (AddScalar (1 / 10 ^ 9)) [s1]) (\<lambda>s2.
            bindE (call Divide [attn2, s2]) (\<lambda>attn3.
            bindE (call (Dropout attention_dropout) [attn3]) (\<lambda>attn4.
            bindE (py_floordiv (dim' * dim_coefficient) num_heads') (\<lambda>w'.
            bindE (call (Dense w' Linear) [attn4]) (\<lambda>x4.
            bindE (call (Transpose [0, 2, 1, 3]) [x4]) (\<lambda>x5.
            bindE (call (Reshape [-1, int num_patch, dim' * dim_coefficient]) [x5]) (\<lambda>x6.
            bindE (call (Dense dim' Linear) [x6]) (\<lambda>x7.
            call (Dropout projection_dropout) [x7])))))))))))))))))
      | _ \<Rightarrow> Inl ValueError)"

text \<open>\<^verbatim>\<open>mlp\<close> (cell 15); \<^verbatim>\<open>drop_rate\<close> has the default 0.2.\<close>

definition mlp_default_drop_rate :: real where
  "mlp_default_drop_rate = 2 / 10"

definition mlp :: "ktensor \<Rightarrow> int \<Rightarrow> int \<Rightarrow> real \<Rightarrow> error + ktensor" where
  "mlp x embedding_dim mlp_dim drop_rate =
     bindE (call (Dense mlp_dim Gelu) [x]) (\<lambda>x1.
     bindE (call (Dropout drop_rate) [x1]) (\<lambda>x2.
     bindE (call (Dense embedding_dim Linear) [x2]) (\<lambda>x3.
     call (Dropout drop_rate) [x3])))"

text \<open>\<^verbatim>\<open>transformer_encoder\<close> (cell 17). The \<^verbatim>\<open>if\<close>/\<^verbatim>\<open>elif\<close> has no \<^verbatim>\<open>else\<close>: any other
  \<^verbatim>\<open>attention_type\<close> leaves \<^verbatim>\<open>x\<close> as the normalised input. \<^verbatim>\<open>mlp\<close> is called without
  a drop rate, so it runs with its default.\<close>

definition transformer_encoder ::
  "ktensor \<Rightarrow> int \<Rightarrow> int \<Rightarrow> int \<Rightarrow> int \<Rightarrow> real \<Rightarrow> real \<Rightarrow> string \<Rightarrow> error + ktensor" where
  "transformer_encoder x embedding_dim mlp_dim num_heads dim_coefficient
       attention_dropout projection_dropout attention_type =
     (let residual_1 = x in
      bindE (call (LayerNormalization (1 / 10 ^ 5)) [x]) (\<lambda>x1.
      bindE (if attention_type = ''external_attention''
             then external_attention x1 embedding_dim num_heads dim_coefficient
                    attention_dropout projection_dropout
             else if attention_type = ''self_attention''
             then call (MultiHeadAttention num_heads embedding_dim attention_dropout) [x1, x1]
             else Inr x1) (\<lambda>x2.
      bindE (call Add [x2, residual_1]) (\<lambda>x3.
      let residual_2 = x3 in
      bindE (call (LayerNormalization (1 / 10 ^ 5)) [x3]) (\<lambda>x4.
      bindE (mlp x4 embedding_dim mlp_dim mlp_default_drop_rate) (\<lambda>x5.
      call Add [x5, residual_2]))))))"

subsection \<open>Patch extraction on concrete tensors\<close>

text \<open>A concrete tensor is its shape and its elements in row-major order, as the framework
  stores it. \<open>at4\<close> and \<open>at3\<close> read an element of a rank-4 and of a rank-3 tensor by its
  indices; \<open>build4\<close> fills a rank-4 tensor from a function of the indices.\<close>

record 'a tensor =
  dims :: "nat list"
  elems :: "'a list"

definition well_formed :: "'a tensor \<Rightarrow> bool" where
  "well_formed t = (length (elems t) = prod_list (dims t))"

definition at4 :: "'a tensor \<Rightarrow> nat \<Rightarrow> nat \<Rightarrow> nat \<Rightarrow> nat \<Rightarrow> 'a" where
  "at4 t i j k l =
     (case dims t of
        [d0, d1, d2, d3] \<Rightarrow> elems t ! (((i * d1 + j) * d2 + k) * d3 + l)
      | _ \<Rightarrow> undefined)"

definition at3 :: "'a tensor \<Rightarrow> nat \<Rightarrow> nat \<Rightarrow> nat \<Rightarrow> 'a" where
  "at3 t i j k =
     (case dims t of
        [d0, d1, d2] \<Rightarrow> elems t ! ((i * d1 + j) * d2 + k)
      | _ \<Rightarrow> undefined)"

definition build4 :: "nat \<Rightarrow> nat \<Rightarrow> nat \<Rightarrow> nat \<Rightarrow> (nat \<Rightarrow> nat \<Rightarrow> nat \<Rightarrow> nat \<Rightarrow> 'a) \<Rightarrow> 'a tensor" where
  "build4 d0 d1 d2 d3 f =
     \<lparr>dims = [d0, d1, d2, d3],
      elems = map (\<lambda>n. f (n div (d3 * d2 * d1)) (n div (d3 * d2) mod d1) (n div d3 mod d2) (n mod d3))
                [0..<d0 * d1 * d2 * d3]\<rparr>"

text \<open>\<^verbatim>\<open>tf.image.extract_patches\<close> as \<^verbatim>\<open>PatchExtract.call\<close> uses it: sizes and strides
  \<^verbatim>\<open>(1, p, p, 1)\<close>, rates 1, padding VALID. Patch \<open>(row, col)\<close> of image \<open>i\<close> holds the
  pixels of rows \<open>row * p ... row * p + p - 1\<close> and columns \<open>col * p ... col * p + p - 1\<close>,
  laid out along the last axis by row, then column, then channel.\<close>

definition extract_patches :: "'a tensor \<Rightarrow> int \<Rightarrow> error + 'a tensor" where
  "extract_patches images p =
     (case dims images of
        [b, h, w, c] \<Rightarrow>
          if p \<le> 0 then Inl ValueError
          else let q = nat p in
            Inr (build4 b (valid_out h q) (valid_out w q) (q * q * c)
                  (\<lambda>i row col k.
                     at4 images i (row * q + k div (q * c)) (col * q + k div c mod q) (k mod c)))
      | _ \<Rightarrow> Inl ValueError)"

text \<open>\<^verbatim>\<open>tf.reshape\<close> on a concrete tensor keeps the elements and their order.\<close>

definition reshape :: "'a tensor \<Rightarrow> int list \<Rightarrow> error + 'a tensor" where
  "reshape t tgt = bindE (reshape_shape (dims t) tgt) (\<lambda>s. Inr \<lparr>dims = s, elems = elems t\<rparr>)"

text \<open>\<^verbatim>\<open>PatchExtract.call\<close> (cell 11). \<^verbatim>\<open>patch_num\<close> is \<^verbatim>\<open>patches.shape[1]\<close>, the number of
  patch rows, and the target of the reshape is \<^verbatim>\<open>patch_num * patch_num\<close> patches.\<close>

definition PatchExtract_call :: "int \<Rightarrow> 'a tensor \<Rightarrow> error + 'a tensor" where
  "PatchExtract_call patch_size' images =
     (case dims images of
        [] \<Rightarrow> Inl ValueError
      | batch_size # rest \<Rightarrow>
          bindE (extract_patches images patch_size') (\<lambda>patches.
          let patch_dim = last (dims patches);
              patch_num = dims patches ! 1
          in reshape patches [int batch_size, int (patch_num * patch_num), int patch_dim]))"

text \<open>Putting a patch sequence back together, in the order the specification names: the
  patches of an image row-major over the grid of \<open>h div q\<close> by \<open>w div q\<close> patches, the pixels
  of a patch row-major, channels last. Pixel \<open>(y, x)\<close> of image \<open>i\<close> is read from patch
  \<open>(y div q) * (w div q) + x div q\<close> at offset \<open>((y mod q) * q + x mod q) * c\<close>.\<close>

definition reassemble :: "'a tensor \<Rightarrow> nat \<Rightarrow> nat \<Rightarrow> nat \<Rightarrow> nat \<Rightarrow> 'a tensor" where
  "reassemble patches q h w c =
     build4 (hd (dims patches)) h w c
       (\<lambda>i y x ch. at3 patches i ((y div q) * (w div q) + x div q)
                      (((y mod q) * q + x mod q) * c + ch))"

subsection \<open>The re-normalisation of the attention map in float32\<close>

text \<open>The notebook computes in float32. A float32 operation returns the exact result
  rounded to the nearest binary32 number, ties to the even significand: 24 significant
  bits, exponents from -126, and below \<open>2 ^ -126\<close> the fixed spacing \<open>2 ^ -149\<close> of
  the subnormal numbers. \<open>round32\<close> is this rounding on the reals; overflow is left out,
  no value below exceeds \<open>2 ^ 31\<close>.\<close>

definition rne :: "real \<Rightarrow> int" where
  "rne y =
     (let f = \<lfloor>y\<rfloor>; d = y - of_int f
      in if d < 1 / 2 then f else if 1 / 2 < d then f + 1 else if even f then f else f + 1)"

definition exponent32 :: "real \<Rightarrow> int" where
  "exponent32 x = max \<lfloor>log 2 \<bar>x\<bar>\<rfloor> (- 126)"

definition ulp32 :: "real \<Rightarrow> real" where
  "ulp32 x = 2 powr (of_int (exponent32 x - 23))"

definition round32 :: "real \<Rightarrow> real" where
  "round32 x = (if x = 0 then 0 else of_int (rne (x / ulp32 x)) * ulp32 x)"

text \<open>What the properties below need of the rounding, so that they hold for every
  platform's float32 (also one that flushes subnormal results to zero): zero is exact, the
  rounding is monotone on the non-negative numbers, its relative error is at most
  \<open>2 ^ -24\<close> in the normal range, and below the normal range its error is at most
  \<open>2 ^ -126\<close>.\<close>

definition float_rounding :: "(real \<Rightarrow> real) \<Rightarrow> bool" where
  "float_rounding rnd =
     (rnd 0 = 0
      \<and> (\<forall>x y. 0 \<le> x \<and> x \<le> y \<longrightarrow> rnd x \<le> rnd y)
      \<and> (\<forall>x. 1 / 2 ^ 126 \<le> x \<and> x \<le> 2 ^ 127 \<longrightarrow> \<bar>rnd x - x\<bar> \<le> x / 2 ^ 24)
      \<and> (\<forall>x. 0 \<le> x \<and> x < 1 / 2 ^ 126 \<longrightarrow> \<bar>rnd x - x\<bar> \<le> 1 / 2 ^ 126))"

text \<open>\<^verbatim>\<open>tf.reduce_sum\<close> adds the float32 elements of a row in an order that the framework
  does not fix, so the kernel is an argument \<open>rsum\<close> of the model, from the elements of a
  row to their float32 sum. Whatever the order, the sum of non-negative numbers is not
  negative. \<open>rsum32\<close> is the kernel that adds from left to right.\<close>

definition nonneg_sum :: "(real list \<Rightarrow> real) \<Rightarrow> bool" where
  "nonneg_sum rsum = (\<forall>xs. (\<forall>x\<in>set xs. 0 \<le> x) \<longrightarrow> 0 \<le> rsum xs)"

definition rsum32 :: "real list \<Rightarrow> real" where
  "rsum32 xs = foldl (\<lambda>acc x. round32 (acc + x)) 0 xs"

text \<open>Line 248 of \<^verbatim>\<open>external_attention\<close>,
  \<^verbatim>\<open>attn = attn / (1e-9 + tf.reduce_sum(attn, axis=-1, keepdims=True))\<close>,
  on the rank-4 tensor \<open>[batch, heads, patches, width]\<close> that \<^verbatim>\<open>layers.Softmax(axis=2)\<close>
  returned on line 246 (its entries are float32 numbers from 0 to 1; the softmax runs over
  the patch axis): the sum over the last axis keeps that axis with length 1, the Python
  number \<^verbatim>\<open>1e-9\<close> becomes a float32 and is added to every sum, and the division stretches
  the sums along the last axis. Every step rounds.\<close>

definition row :: "'a tensor \<Rightarrow> nat \<Rightarrow> nat \<Rightarrow> nat \<Rightarrow> 'a list" where
  "row t i j k = map (\<lambda>l. at4 t i j k l) [0..<last (dims t)]"

definition reduce_sum_last :: "(real list \<Rightarrow> real) \<Rightarrow> real tensor \<Rightarrow> error + real tensor" where
  "reduce_sum_last rsum t =
     (case dims t of
        [b, h, n, w] \<Rightarrow> Inr (build4 b h n 1 (\<lambda>i j k l. rsum (row t i j k)))
      | _ \<Rightarrow> Inl ValueError)"

definition add_scalar :: "(real \<Rightarrow> real) \<Rightarrow> real \<Rightarrow> real tensor \<Rightarrow> real tensor" where
  "add_scalar rnd c t = \<lparr>dims = dims t, elems = map (\<lambda>v. rnd (rnd c + v)) (elems t)\<rparr>"

definition divide_last_broadcast ::
  "(real \<Rightarrow> real) \<Rightarrow> real tensor \<Rightarrow> real tensor \<Rightarrow> error + real tensor" where
  "divide_last_broadcast rnd a s =
     (case dims a of
        [b, h, n, w] \<Rightarrow>
          if dims s = [b, h, n, 1]
          then Inr (build4 b h n w (\<lambda>i j k l. rnd (at4 a i j k l / at4 s i j k 0)))
          else Inl InvalidArgumentError
      | _ \<Rightarrow> Inl ValueError)"

definition renormalization ::
  "(real \<Rightarrow> real) \<Rightarrow> (real list \<Rightarrow> real) \<Rightarrow> real tensor \<Rightarrow> error + real tensor" where
  "renormalization rnd rsum attn =
     bindE (reduce_sum_last rsum attn) (\<lambda>s.
     divide_last_broadcast rnd attn (add_scalar rnd (1 / 10 ^ 9) s))"

text \<open>The number a row is divided by, and the exact sum of the entries of a row.\<close>

definition divisor :: "(real \<Rightarrow> real) \<Rightarrow> (real list \<Rightarrow> real) \<Rightarrow> real tensor \<Rightarrow> nat \<Rightarrow> nat \<Rightarrow> nat \<Rightarrow> real" where
  "divisor rnd rsum t i j k = rnd (rnd (1 / 10 ^ 9) + rsum (row t i j k))"


subsection \<open>The notebook's hyperparameters (cells 5 and 7)\<close>

text \<open>The notebook keeps its hyperparameters in global variables, which \<^verbatim>\<open>get_model\<close>
  reads; here they are the fields of a record that \<open>get_model\<close> takes as an argument, and
  \<open>notebook\<close> holds the values the notebook assigns. \<^verbatim>\<open>num_patches\<close> is computed as
  \<^verbatim>\<open>(input_shape[0] // patch_size) ** 2\<close>.\<close>

record hyperparameters =
  num_classes :: int
  input_shape :: "nat list"
  patch_size :: int
  num_patches :: int
  embedding_dim :: int
  mlp_dim :: int
  dim_coefficient :: int
  num_heads :: int
  attention_dropout :: real
  projection_dropout :: real
  num_transformer_blocks :: int

definition notebook :: hyperparameters where
  "notebook =
     \<lparr>num_classes = 100,
      input_shape = [32, 32, 3],
      patch_size = 2,
      num_patches = (int ([32, 32, 3] ! 0) div 2) ^ 2,
      embedding_dim = 64,
      mlp_dim = 64,
      dim_coefficient = 4,
      num_heads = 4,
      attention_dropout = 2 / 10,
      projection_dropout = 2 / 10,
      num_transformer_blocks = 8\<rparr>"

subsection \<open>The model (cells 9 and 20)\<close>

text \<open>\<^verbatim>\<open>data_augmentation\<close> is a \<^verbatim>\<open>keras.Sequential\<close> of five layers, applied in order.\<close>

definition data_augmentation :: "ktensor \<Rightarrow> error + ktensor" where
  "data_augmentation x =
     bindE (call Normalization [x]) (\<lambda>x1.
     bindE (call RandomFlip [x1]) (\<lambda>x2.
     bindE (call (RandomRotation (1 / 10)) [x2]) (\<lambda>x3.
     bindE (call (RandomContrast (1 / 10)) [x3]) (\<lambda>x4.
     call (RandomZoom (2 / 10) (2 / 10)) [x4]))))"

text \<open>The loop \<^verbatim>\<open>for _ in range(num_transformer_blocks)\<close> of \<^verbatim>\<open>get_model\<close>, by the
  number of iterations left.\<close>

fun transformer_blocks :: "nat \<Rightarrow> hyperparameters \<Rightarrow> string \<Rightarrow> ktensor \<Rightarrow> error + ktensor" where
  "transformer_blocks 0 hp attention_type x = Inr x"
| "transformer_blocks (Suc n) hp attention_type x =
     bindE (transformer_encoder x (embedding_dim hp) (mlp_dim hp) (num_heads hp)
              (dim_coefficient hp) (attention_dropout hp) (projection_dropout hp) attention_type)
       (transformer_blocks n hp attention_type)"

text \<open>\<^verbatim>\<open>get_model\<close> (cell 20). The result is the output tensor of the model; \<open>batch\<close> is
  the batch size of the run. \<^verbatim>\<open>range\<close> of a negative number is empty.\<close>

definition get_model :: "hyperparameters \<Rightarrow> string \<Rightarrow> nat \<Rightarrow> error + ktensor" where
  "get_model hp attention_type batch =
     (let inputs = Input_layer (batch # input_shape hp) in
      bindE (data_augmentation inputs) (\<lambda>x1.
      bindE (call (PatchExtractLayer (patch_size hp)) [x1]) (\<lambda>x2.
      bindE (call (PatchEmbeddingLayer (num_patches hp) (embedding_dim hp)) [x2]) (\<lambda>x3.
      bindE (transformer_blocks (nat (num_transformer_blocks hp)) hp attention_type x3) (\<lambda>x4.
      bindE (call GlobalAvgPool1D [x4]) (\<lambda>x5.
      call (Dense (num_classes hp) SoftmaxActivation) [x5]))))))"

subsection \<open>Reading a built graph\<close>

text \<open>The layer that consumes the output of a dropout layer, searching from the output of
  the graph back along first inputs. In the graph of \<open>external_attention\<close> this is the
  layer applied to the attention map after the attention dropout, the map the notebook's
  comment calls M\_v.\<close>

fun layer_after_dropout :: "node \<Rightarrow> layer option" where
  "layer_after_dropout (Input s) = None"
| "layer_after_dropout (Call l []) = None"
| "layer_after_dropout (Call l (Call (Dropout r) ys # xs)) = Some l"
| "layer_after_dropout (Call l (x # xs)) = layer_after_dropout x"

section \<open>Properties\<close>

subsection \<open>Auxiliary facts about the shape rules\<close>

lemma bindE_Inr [simp]: "bindE (Inr v) f = f v"
  by (simp add: bindE_def)

lemma bindE_Inl [simp]: "bindE (Inl e) f = Inl e"
  by (simp add: bindE_def)

lemma reshape_infer:
  assumes "\<forall>d\<in>set ds. 0 \<le> d" and "0 < prod_list (map nat ds)"
    and "prod_list s = b * prod_list (map nat ds)"
  shows "reshape_shape s (-1 # ds) = Inr (b # map nat ds)"
proof -
  have f1: "filter (\<lambda>d. d \<noteq> -1) ds = ds" using assms(1) by (induction ds) auto
  have f2: "filter (\<lambda>d. d = -1) ds = []" using assms(1) by (induction ds) auto
  have f3: "\<not> list_ex (\<lambda>d. d < -1) ds" using assms(1) by (induction ds) auto
  have f4: "map (\<lambda>d. if d = -1 then b else nat d) ds = map nat ds"
    using assms(1) by (induction ds) auto
  have f5: "-1 \<notin> set ds" using assms(1) by auto
  show ?thesis
    using assms(2,3) by (simp add: reshape_shape_def Let_def f1 f2 f3 f4 f5)
qed

lemma broadcast_rev_keep:
  "length t = length s \<Longrightarrow> \<forall>i<length s. t ! i = s ! i \<or> t ! i = 1
    \<Longrightarrow> broadcast_rev s t = Inr s"
proof (induction s t rule: broadcast_rev.induct)
  case (3 x xs y ys)
  from 3(4) have h: "y = x \<or> y = 1"
    by (metis length_greater_0_conv list.simps(3) nth_Cons_0)
  have "\<forall>i<length xs. ys ! i = xs ! i \<or> ys ! i = 1"
    using 3(4) by (metis Suc_less_eq length_Cons nth_Cons_Suc)
  with 3 h show ?case by auto
qed auto

lemma broadcast_same: "broadcast s s = Inr s"
  by (simp add: broadcast_def broadcast_rev_keep)

lemma broadcast_rev_errors: "broadcast_rev xs ys = Inl e \<Longrightarrow> e = InvalidArgumentError"
  by (induction xs ys rule: broadcast_rev.induct)
     (auto simp: bindE_def split: if_splits sum.splits)

lemma broadcast_errors: "broadcast s1 s2 = Inl e \<Longrightarrow> e = InvalidArgumentError"
  by (auto simp: broadcast_def bindE_def split: sum.splits dest: broadcast_rev_errors)

text \<open>No framework call raises Python's AssertionError or ZeroDivisionError.\<close>

lemma layer_shape_errors:
  "layer_shape l ss = Inl e \<Longrightarrow> e = ValueError \<or> e = InvalidArgumentError"
  by (induction l ss rule: layer_shape.induct)
     (auto simp: dense_shape_def reshape_shape_def transpose_shape_def norm_axis_def
        bindE_def Let_def split: if_splits sum.splits list.splits dest: broadcast_errors)

lemma call_errors: "call l xs = Inl e \<Longrightarrow> e = ValueError \<or> e = InvalidArgumentError"
  by (auto simp: call_def bindE_def split: sum.splits dest: layer_shape_errors)

lemma call_no_assert: "call l xs \<noteq> Inl AssertionError"
  using call_errors by fastforce

lemma py_floordiv_no_assert: "py_floordiv a b \<noteq> Inl AssertionError"
  by (simp add: py_floordiv_def)

lemma bindE_no_assert:
  "m \<noteq> Inl AssertionError \<Longrightarrow> (\<And>v. f v \<noteq> Inl AssertionError)
    \<Longrightarrow> bindE m f \<noteq> Inl AssertionError"
  by (cases m) auto

lemma layer_norm_call:
  "shape x \<noteq> [] \<Longrightarrow> call (LayerNormalization eps) [x] =
     Inr \<lparr>shape = shape x, node = Call (LayerNormalization eps) [node x]\<rparr>"
  by (simp add: call_def)

lemma add_call_same:
  "shape y = shape x \<Longrightarrow>
     call Add [x, y] = Inr \<lparr>shape = shape x, node = Call Add [node x, node y]\<rparr>"
  by (simp add: call_def broadcast_same)

lemma mha_call:
  assumes "shape x = [b, n, c]" and "0 < h" and "0 < e" and "0 \<le> r" and "r < 1"
  shows "call (MultiHeadAttention h e r) [x, x] =
     Inr \<lparr>shape = shape x, node = Call (MultiHeadAttention h e r) [node x, node x]\<rparr>"
  using assms by (simp add: call_def)

subsection \<open>The graph that \<open>external_attention\<close> builds\<close>

text \<open>For a rank-3 input with at least one patch, positive \<open>dim\<close>, head count and
  coefficient, \<open>dim\<close> a multiple of the head count and dropout rates in \<open>[0, 1)\<close>, the call
  succeeds, and this is the tensor it returns.\<close>

lemma external_attention_valid:
  assumes sx: "shape x = [b, n, c]"
    and n: "0 < n" and d: "0 < d" and h: "0 < h" and dv: "d mod h = 0" and k: "0 < k"
    and ra: "0 \<le> ra" "ra < 1" and rp: "0 \<le> rp" "rp < 1"
  shows "external_attention x d h k ra rp =
    (let attn = Call (Softmax 2) [Call (Dense (d div k) Linear) [Call (Transpose [0, 2, 1, 3])
                  [Call (Reshape [-1, int n, h * k, d div h])
                    [Call (Dense (d * k) Linear) [node x]]]]]
     in Inr \<lparr>shape = [b, n, nat d],
             node = Call (Dropout rp) [Call (Dense d Linear) [Call (Reshape [-1, int n, d * k])
                      [Call (Transpose [0, 2, 1, 3]) [Call (Dense (d div h) Linear)
                        [Call (Dropout ra) [Call Divide [attn,
                           Call (AddScalar (1 / 10 ^ 9))
                             [Call (ReduceSumKeepdims (-1)) [attn]]]]]]]]]\<rparr>)"
proof -
  obtain q where q: "d = h * q" using dv by auto
  have qpos: "0 < q" using d h q by (simp add: zero_less_mult_iff)
  have dq: "(d * k) div (h * k) = q" using q h k by simp
  have dh: "d div h = q" using q h by simp
  have e1: "nat (d * k) = nat (h * k) * nat q"
    using q h k qpos by (simp add: nat_mult_distrib mult_ac)
  have r1: "reshape_shape [b, n, nat (d * k)] [-1, int n, h * k, q]
      = Inr [b, n, nat (h * k), nat q]"
    using reshape_infer[of "[int n, h * k, q]" "[b, n, nat (d * k)]" b] h k qpos n e1
    by (simp add: mult_ac)
  have r2: "reshape_shape [b, n, nat (h * k), nat q] [-1, int n, d * k]
      = Inr [b, n, nat (d * k)]"
    using reshape_infer[of "[int n, d * k]" "[b, n, nat (h * k), nat q]" b] h k d qpos n e1
    by (simp add: mult_ac)
  have bc: "broadcast [b, nat (h * k), n, u] [b, nat (h * k), n, Suc 0]
      = Inr [b, nat (h * k), n, u]" for u
    by (simp add: broadcast_def)
  have p1: "0 \<le> d div k" using d k by (simp add: pos_imp_zdiv_nonneg_iff)
  have p2: "(d * k < 0) = False" using d k by (simp add: not_less)
  show ?thesis
    using sx d h dv k ra rp qpos p1
    by (simp add: external_attention_def py_mod_def py_floordiv_def call_def dense_shape_def
        transpose_shape_def norm_axis_def Let_def dq dh r1 r2 bc p2)
qed

text \<open>Outside these bounds: a head count of zero fails at the \<^verbatim>\<open>%\<close> of the assertion,
  and a coefficient of zero at the \<^verbatim>\<open>//\<close> that computes the width of a head.\<close>

lemma external_attention_zero_heads:
  "shape x = [b, n, c] \<Longrightarrow> external_attention x d 0 k ra rp = Inl ZeroDivisionError"
  by (simp add: external_attention_def py_mod_def)

lemma external_attention_zero_coefficient:
  assumes "shape x = [b, n, c]" and "h \<noteq> 0" and "d mod h = 0"
  shows "external_attention x d h 0 ra rp = Inl ZeroDivisionError"
  using assms
  by (simp add: external_attention_def py_mod_def py_floordiv_def call_def dense_shape_def)

lemma mlp_valid:
  assumes "2 \<le> length (shape x)" and "0 \<le> e" and "0 \<le> m" and "0 \<le> r" and "r < 1"
  shows "mlp x e m r =
    Inr \<lparr>shape = butlast (shape x) @ [nat e],
         node = Call (Dropout r) [Call (Dense e Linear)
                  [Call (Dropout r) [Call (Dense m Gelu) [node x]]]]\<rparr>"
  using assms by (simp add: mlp_def call_def dense_shape_def not_less)

subsection \<open>Shape contract of external attention\<close>

text \<open>
  Claim C1. For every valid input of shape \<open>(N, d)\<close> (with its batch axis, at least one
  patch, \<open>d\<close> positive and divisible by the positive head count \<open>H\<close>), any positive dimension
  coefficient \<open>k\<close> and dropout rates in \<open>[0, 1)\<close>, \<open>external_attention\<close> returns a tensor,
  and its shape is the shape of the input.
\<close>

theorem external_attention_preserves_shape:
  assumes "shape x = [b, n, nat d]"
    and "0 < n" and "0 < d" and "0 < h" and "d mod h = 0" and "0 < k"
    and "0 \<le> ra" and "ra < 1" and "0 \<le> rp" and "rp < 1"
  shows "\<exists>t. external_attention x d h k ra rp = Inr t \<and> shape t = shape x"
  using external_attention_valid[OF assms] assms(1) by (simp add: Let_def)

theorem external_attention_preserves_shape_witness:
  "\<exists>t. external_attention (Input_layer [8, 256, 64]) 64 4 4 (2 / 10) (2 / 10) = Inr t
      \<and> shape t = [8, 256, 64]"
  using external_attention_preserves_shape[of "Input_layer [8, 256, 64]" 8 256 64 4 4 "2 / 10" "2 / 10"]
  by (simp add: Input_layer_def)

subsection \<open>Width of the second shared linear map\<close>

text \<open>
  Claim C2, as stated: the linear map applied after the attention dropout (M\_v) has width
  \<open>(d * k) / H\<close> for the head count \<open>H\<close> the caller passed. It fails for the notebook's own
  values \<open>d = 64\<close>, \<open>H = 4\<close>, \<open>k = 4\<close>: the layer has width 16, and \<open>(64 * 4) / 4 = 64\<close>.
\<close>

theorem m_v_width_counterexample:
  "map_sum id (layer_after_dropout \<circ> node)
      (external_attention (Input_layer [1, 256, 64]) 64 4 4 (2 / 10) (2 / 10))
     = Inr (Some (Dense 16 Linear))
   \<and> (16 :: int) \<noteq> 64 * 4 div 4"
  by (simp add: external_attention_def Input_layer_def py_mod_def py_floordiv_def call_def
      dense_shape_def reshape_shape_def transpose_shape_def norm_axis_def broadcast_def Let_def)

text \<open>
  Claim C2, amended: \<open>num_heads\<close> is rebound to \<open>H * k\<close> before the width is computed, so
  the linear map applied after the attention dropout has width \<open>(d * k) / (H * k) = d / H\<close>
  for each of the \<open>H * k\<close> heads.
\<close>

theorem m_v_width:
  assumes "shape x = [b, n, c]"
    and "0 < n" and "0 < d" and "0 < h" and "d mod h = 0" and "0 < k"
    and "0 \<le> ra" and "ra < 1" and "0 \<le> rp" and "rp < 1"
  shows "\<exists>t. external_attention x d h k ra rp = Inr t
           \<and> layer_after_dropout (node t) = Some (Dense (d div h) Linear)
           \<and> d div h = (d * k) div (h * k)"
proof -
  have "(d * k) div (h * k) = d div h" using assms(6) by simp
  then show ?thesis
    using external_attention_valid[OF assms] by (simp add: Let_def)
qed

theorem m_v_width_witness:
  "\<exists>t. external_attention (Input_layer [1, 256, 64]) 64 4 4 (2 / 10) (2 / 10) = Inr t
      \<and> layer_after_dropout (node t) = Some (Dense 16 Linear)"
  using m_v_width[of "Input_layer [1, 256, 64]" 1 256 64 64 4 4 "2 / 10" "2 / 10"]
  by (simp add: Input_layer_def)

subsection \<open>The divisibility assertion\<close>

text \<open>
  Claim C7. On a rank-3 input and for a nonzero head count, \<open>external_attention\<close> fails
  with AssertionError exactly when the embedding dimension is not divisible by the head
  count, whatever the other arguments are. With \<open>embedding_dim = 64\<close>, \<open>num_heads = 4\<close>
  the assertion holds and the construction succeeds; with \<open>embedding_dim = 65\<close>,
  \<open>num_heads = 4\<close> it fails at the assertion.
\<close>

theorem external_attention_assertion:
  assumes "shape x = [b, n, c]" and "h \<noteq> 0"
  shows "((external_attention x d h k ra rp = Inl AssertionError) = (\<not> h dvd d))
    \<and> (\<exists>t. external_attention (Input_layer [1, 256, 64]) 64 4 (dim_coefficient notebook)
              (attention_dropout notebook) (projection_dropout notebook) = Inr t)
    \<and> external_attention (Input_layer [1, 256, 65]) 65 4 (dim_coefficient notebook)
              (attention_dropout notebook) (projection_dropout notebook) = Inl AssertionError"
proof -
  have iff: "(external_attention x d h k ra rp = Inl AssertionError) = (d mod h \<noteq> 0)"
  proof (cases "d mod h = 0")
    case True
    have "external_attention x d h k ra rp \<noteq> Inl AssertionError"
      using assms True
      by (simp add: external_attention_def py_mod_def Let_def)
         (intro bindE_no_assert call_no_assert py_floordiv_no_assert)
    with True show ?thesis by simp
  next
    case False
    then show ?thesis using assms by (simp add: external_attention_def py_mod_def)
  qed
  have ok: "\<exists>t. external_attention (Input_layer [1, 256, 64]) 64 4 (dim_coefficient notebook)
              (attention_dropout notebook) (projection_dropout notebook) = Inr t"
    using external_attention_valid[of "Input_layer [1, 256, 64]" 1 256 64 64 4
        "dim_coefficient notebook" "attention_dropout notebook" "projection_dropout notebook"]
    by (simp add: Input_layer_def notebook_def Let_def)
  have bad: "external_attention (Input_layer [1, 256, 65]) 65 4 (dim_coefficient notebook)
              (attention_dropout notebook) (projection_dropout notebook) = Inl AssertionError"
    by (simp add: external_attention_def Input_layer_def py_mod_def)
  show ?thesis using iff ok bad by (simp add: mod_eq_0_iff_dvd)
qed

theorem external_attention_assertion_witness:
  "external_attention (Input_layer [1, 16, 10]) 10 3 2 0 0 = Inl AssertionError
   \<and> external_attention (Input_layer [1, 16, 12]) 12 3 2 0 0 \<noteq> Inl AssertionError"
  using external_attention_assertion[of "Input_layer [1, 16, 10]" 1 16 10 3 10 2 0 0]
    external_attention_assertion[of "Input_layer [1, 16, 12]" 1 16 12 3 12 2 0 0]
  by (simp add: Input_layer_def)

subsection \<open>The transformer block\<close>

lemma transformer_encoder_valid:
  assumes sx: "shape x = [b, n, nat e]"
    and n: "0 < n" and e: "0 < e" and h: "0 < h" and dv: "e mod h = 0" and k: "0 < k"
    and m: "0 \<le> m"
    and ra: "0 \<le> ra" "ra < 1" and rp: "0 \<le> rp" "rp < 1"
    and atype: "atype = ''external_attention'' \<or> atype = ''self_attention''"
  shows "\<exists>t. transformer_encoder x e m h k ra rp atype = Inr t \<and> shape t = [b, n, nat e]"
proof -
  define x1 where
    "x1 = \<lparr>shape = shape x, node = Call (LayerNormalization (1 / 10 ^ 5)) [node x]\<rparr>"
  have c1: "call (LayerNormalization (1 / 10 ^ 5)) [x] = Inr x1"
    using sx by (simp add: layer_norm_call x1_def)
  have sx1: "shape x1 = [b, n, nat e]" using sx by (simp add: x1_def)
  have "\<exists>x2. (if atype = ''external_attention''
               then external_attention x1 e h k ra rp
               else if atype = ''self_attention''
               then call (MultiHeadAttention h e ra) [x1, x1]
               else Inr x1) = Inr x2 \<and> shape x2 = [b, n, nat e]"
  proof (cases "atype = ''external_attention''")
    case True
    then show ?thesis
      using external_attention_valid[OF sx1 n e h dv k ra rp] by (simp add: Let_def)
  next
    case False
    with atype have "atype = ''self_attention''" by simp
    then show ?thesis using mha_call[OF sx1 h e ra] sx1 by simp
  qed
  then obtain x2 where c2: "(if atype = ''external_attention''
               then external_attention x1 e h k ra rp
               else if atype = ''self_attention''
               then call (MultiHeadAttention h e ra) [x1, x1]
               else Inr x1) = Inr x2" and sx2: "shape x2 = [b, n, nat e]"
    by blast
  define x3 where "x3 = \<lparr>shape = shape x2, node = Call Add [node x2, node x]\<rparr>"
  have c3: "call Add [x2, x] = Inr x3" using sx sx2 by (simp add: add_call_same x3_def)
  have sx3: "shape x3 = [b, n, nat e]" using sx2 by (simp add: x3_def)
  define x4 where
    "x4 = \<lparr>shape = shape x3, node = Call (LayerNormalization (1 / 10 ^ 5)) [node x3]\<rparr>"
  have c4: "call (LayerNormalization (1 / 10 ^ 5)) [x3] = Inr x4"
    using sx3 by (simp add: layer_norm_call x4_def)
  have sx4: "shape x4 = [b, n, nat e]" using sx3 by (simp add: x4_def)
  obtain x5 where c5: "mlp x4 e m mlp_default_drop_rate = Inr x5"
    and sx5: "shape x5 = [b, n, nat e]"
    using mlp_valid[of x4 e m mlp_default_drop_rate] sx4 e m
    by (simp add: mlp_default_drop_rate_def)
  have c6: "call Add [x5, x3] = Inr \<lparr>shape = shape x5, node = Call Add [node x5, node x3]\<rparr>"
    using sx5 sx3 by (simp add: add_call_same)
  show ?thesis
    unfolding transformer_encoder_def Let_def
    by (simp only: c1 bindE_Inr c2 c3 c4 c5 c6) (simp add: sx5)
qed

text \<open>
  Claim C8. For an input sequence of shape \<open>(N, embedding_dim)\<close> and valid hyperparameters,
  \<open>transformer_encoder\<close> returns a tensor of the shape of its input under both attention
  variants; with the notebook's hyperparameters a sequence of \<open>num_patches = 256\<close> patches
  of width 64 comes back as a 256 x 64 tensor.
\<close>

theorem transformer_encoder_preserves_shape:
  assumes "shape x = [b, n, nat e]"
    and "0 < n" and "0 < e" and "0 < h" and "e mod h = 0" and "0 < k"
    and "0 \<le> m"
    and "0 \<le> ra" and "ra < 1" and "0 \<le> rp" and "rp < 1"
    and "atype = ''external_attention'' \<or> atype = ''self_attention''"
  shows "(\<exists>t. transformer_encoder x e m h k ra rp atype = Inr t \<and> shape t = shape x)
    \<and> num_patches notebook = 256
    \<and> (\<exists>t. transformer_encoder (Input_layer [b, nat (num_patches notebook), 64])
              (embedding_dim notebook) (mlp_dim notebook) (num_heads notebook)
              (dim_coefficient notebook) (attention_dropout notebook)
              (projection_dropout notebook) atype = Inr t
            \<and> shape t = [b, 256, 64])"
proof -
  have np: "num_patches notebook = 256"
    by (simp add: notebook_def)
  have inst: "\<exists>t. transformer_encoder (Input_layer [b, nat (num_patches notebook), 64])
              (embedding_dim notebook) (mlp_dim notebook) (num_heads notebook)
              (dim_coefficient notebook) (attention_dropout notebook)
              (projection_dropout notebook) atype = Inr t
            \<and> shape t = [b, 256, nat (embedding_dim notebook)]"
    by (rule transformer_encoder_valid)
       (simp_all add: np assms(12) Input_layer_def, simp_all add: notebook_def)
  then have inst': "\<exists>t. transformer_encoder (Input_layer [b, nat (num_patches notebook), 64])
              (embedding_dim notebook) (mlp_dim notebook) (num_heads notebook)
              (dim_coefficient notebook) (attention_dropout notebook)
              (projection_dropout notebook) atype = Inr t
            \<and> shape t = [b, 256, 64]"
    by (simp add: notebook_def)
  show ?thesis
    using transformer_encoder_valid[OF assms] assms(1) np inst' by auto
qed

theorem transformer_encoder_preserves_shape_witness:
  "(\<exists>t. transformer_encoder (Input_layer [2, 256, 64]) 64 64 4 4 (2 / 10) (2 / 10)
          ''self_attention'' = Inr t \<and> shape t = [2, 256, 64])
   \<and> (\<exists>t. transformer_encoder (Input_layer [2, 256, 64]) 64 64 4 4 (2 / 10) (2 / 10)
          ''external_attention'' = Inr t \<and> shape t = [2, 256, 64])"
  using transformer_encoder_preserves_shape[of "Input_layer [2, 256, 64]" 2 256 64 4 4 64
      "2 / 10" "2 / 10" "''self_attention''"]
    transformer_encoder_preserves_shape[of "Input_layer [2, 256, 64]" 2 256 64 4 4 64
      "2 / 10" "2 / 10" "''external_attention''"]
  by (simp add: Input_layer_def)

text \<open>
  Claim C10. With an \<open>attention_type\<close> that is neither \<open>external_attention\<close> nor
  \<open>self_attention\<close>, \<open>transformer_encoder\<close> raises nothing and builds no attention layer:
  the block adds the layer-normalised input to the input, and then adds to that sum its
  own layer-normalised image under the MLP. The result has the shape of the input. The
  head count, the coefficient and the two dropout rates are not read.
\<close>

theorem transformer_encoder_unknown_attention:
  assumes "atype \<noteq> ''external_attention''" and "atype \<noteq> ''self_attention''"
    and "shape x = s @ [nat e]" and "s \<noteq> []" and "0 \<le> e" and "0 \<le> m"
  shows "transformer_encoder x e m h k ra rp atype =
    (let y = Call Add [Call (LayerNormalization (1 / 10 ^ 5)) [node x], node x]
     in Inr \<lparr>shape = shape x,
             node = Call Add [Call (Dropout (2 / 10)) [Call (Dense e Linear)
                      [Call (Dropout (2 / 10)) [Call (Dense m Gelu)
                        [Call (LayerNormalization (1 / 10 ^ 5)) [y]]]]], y]\<rparr>)"
proof -
  have l: "2 \<le> length (shape x)" using assms(3,4) by (cases s) auto
  show ?thesis
    using assms l
    by (simp add: transformer_encoder_def Let_def layer_norm_call add_call_same mlp_valid
        mlp_default_drop_rate_def)
qed

theorem transformer_encoder_unknown_attention_witness:
  "transformer_encoder (Input_layer [1, 256, 64]) 64 64 0 0 7 7 ''linear_attention'' =
     Inr \<lparr>shape = [1, 256, 64],
          node = Call Add [Call (Dropout (2 / 10)) [Call (Dense 64 Linear)
                   [Call (Dropout (2 / 10)) [Call (Dense 64 Gelu)
                     [Call (LayerNormalization (1 / 10 ^ 5))
                       [Call Add [Call (LayerNormalization (1 / 10 ^ 5)) [Input [1, 256, 64]],
                                  Input [1, 256, 64]]]]]]],
                 Call Add [Call (LayerNormalization (1 / 10 ^ 5)) [Input [1, 256, 64]],
                           Input [1, 256, 64]]]\<rparr>"
  using transformer_encoder_unknown_attention[of "''linear_attention''" "Input_layer [1, 256, 64]"
      "[1, 256]" 64 64 0 0 7 7]
  by (simp add: Input_layer_def Let_def)

subsection \<open>Patch extraction\<close>

text \<open>Indices of a row-major tensor: splitting a flat index into its coordinates and
  putting the coordinates back together are inverse to each other.\<close>

lemma radix_decode:
  fixes n :: nat
  shows "((n div (d3 * d2 * d1) * d1 + n div (d3 * d2) mod d1) * d2 + n div d3 mod d2) * d3 + n mod d3 = n"
proof -
  have a: "n div (d3 * d2 * d1) * d1 + n div (d3 * d2) mod d1 = n div (d3 * d2)"
    by (simp add: div_mult2_eq)
  have b: "n div (d3 * d2) * d2 + n div d3 mod d2 = n div d3"
    by (simp add: div_mult2_eq)
  show ?thesis by (simp add: a b)
qed

lemma radix_encode:
  fixes i j k l :: nat
  assumes "j < d1" and "k < d2" and "l < d3"
  defines "n \<equiv> ((i * d1 + j) * d2 + k) * d3 + l"
  shows "n mod d3 = l" and "n div d3 mod d2 = k" and "n div (d3 * d2) mod d1 = j"
    and "n div (d3 * d2 * d1) = i"
proof -
  show 1: "n mod d3 = l" using assms by simp
  have 2: "n div d3 = (i * d1 + j) * d2 + k" using assms by simp
  show "n div d3 mod d2 = k" using 2 assms by simp
  have 3: "n div (d3 * d2) = i * d1 + j" using 2 assms by (simp add: div_mult2_eq)
  show "n div (d3 * d2) mod d1 = j" using 3 assms by simp
  have "n div (d3 * d2 * d1) = n div (d3 * d2) div d1" by (simp add: div_mult2_eq)
  then show "n div (d3 * d2 * d1) = i" using 3 assms by simp
qed

lemma radix_bound:
  fixes i j k l :: nat
  assumes "i < d0" and "j < d1" and "k < d2" and "l < d3"
  shows "((i * d1 + j) * d2 + k) * d3 + l < d0 * d1 * d2 * d3"
proof -
  have a: "i * d1 + j < d0 * d1"
  proof -
    have "i * d1 + j < i * d1 + d1" using assms by simp
    also have "\<dots> = (Suc i) * d1" by simp
    also have "\<dots> \<le> d0 * d1" using assms(1) by (intro mult_le_mono1) simp
    finally show ?thesis .
  qed
  have b: "(i * d1 + j) * d2 + k < d0 * d1 * d2"
  proof -
    have "(i * d1 + j) * d2 + k < (i * d1 + j) * d2 + d2" using assms by simp
    also have "\<dots> = (Suc (i * d1 + j)) * d2" by simp
    also have "\<dots> \<le> d0 * d1 * d2" using a by (intro mult_le_mono1) simp
    finally show ?thesis .
  qed
  have "((i * d1 + j) * d2 + k) * d3 + l < ((i * d1 + j) * d2 + k) * d3 + d3" using assms by simp
  also have "\<dots> = (Suc ((i * d1 + j) * d2 + k)) * d3" by simp
  also have "\<dots> \<le> d0 * d1 * d2 * d3" using b by (intro mult_le_mono1) simp
  finally show ?thesis .
qed

lemma elems_build4_nth:
  assumes "n < d0 * d1 * d2 * d3"
  shows "elems (build4 d0 d1 d2 d3 f) ! n =
     f (n div (d3 * d2 * d1)) (n div (d3 * d2) mod d1) (n div d3 mod d2) (n mod d3)"
  using assms by (simp add: build4_def)

lemma build4_at:
  assumes "i < d0" and "j < d1" and "k < d2" and "l < d3"
  shows "elems (build4 d0 d1 d2 d3 f) ! (((i * d1 + j) * d2 + k) * d3 + l) = f i j k l"
  using radix_bound[OF assms] radix_encode[OF assms(2,3,4), of i]
  by (simp add: elems_build4_nth)

lemma patch_offset:
  fixes q c :: nat
  assumes "dy < q" and "dx < q" and "ch < c"
  defines "k \<equiv> (dy * q + dx) * c + ch"
  shows "k div (q * c) = dy" and "k div c mod q = dx" and "k mod c = ch" and "k < q * q * c"
proof -
  have 1: "k div c = dy * q + dx" using assms by simp
  show "k div c mod q = dx" using 1 assms by simp
  show "k mod c = ch" using assms by simp
  have "k div (c * q) = k div c div q" by (simp add: div_mult2_eq)
  then show "k div (q * c) = dy" using 1 assms by (simp add: mult.commute)
  have "dy * q + dx < q * q"
  proof -
    have "dy * q + dx < dy * q + q" using assms by simp
    also have "\<dots> = Suc dy * q" by simp
    also have "\<dots> \<le> q * q" using assms(1) by (intro mult_le_mono1) simp
    finally show ?thesis .
  qed
  then have "Suc (dy * q + dx) * c \<le> q * q * c" by (intro mult_le_mono1) simp
  moreover have "k < Suc (dy * q + dx) * c" using assms by simp
  ultimately show "k < q * q * c" by simp
qed

lemma reassemble_patches:
  fixes t :: "'a tensor"
  assumes dt: "dims t = [b, h, w, c]" and wf: "length (elems t) = b * h * w * c"
    and q: "0 < q" and h: "h = rows * q" and w: "w = cols * q"
  defines "patches \<equiv> build4 b rows cols (q * q * c)
      (\<lambda>i row col k. at4 t i (row * q + k div (q * c)) (col * q + k div c mod q) (k mod c))"
  shows "reassemble \<lparr>dims = [b, rows * cols, q * q * c], elems = elems patches\<rparr> q h w c = t"
proof -
  let ?s = "\<lparr>dims = [b, rows * cols, q * q * c], elems = elems patches\<rparr>"
  have nth: "elems (reassemble ?s q h w c) ! n = elems t ! n" if n: "n < b * h * w * c" for n
  proof -
    define i y x ch where "i = n div (c * w * h)" and "y = n div (c * w) mod h"
      and "x = n div c mod w" and "ch = n mod c"
    have cpos: "0 < c" and wpos: "0 < w" and hpos: "0 < h" using n by (auto intro: Nat.gr0I)
    have ib: "i < b"
    proof -
      have "n < b * (c * w * h)" using n by (simp add: mult_ac)
      then show ?thesis unfolding i_def using cpos wpos hpos
        by (simp add: less_mult_imp_div_less mult.commute)
    qed
    have yb: "y < h" and xb: "x < w" and chb: "ch < c"
      using cpos wpos hpos by (simp_all add: y_def x_def ch_def)
    have yq: "y div q < rows" using yb h q by (simp add: less_mult_imp_div_less)
    have xq: "x div q < cols" using xb w q by (simp add: less_mult_imp_div_less)
    have ym: "y mod q < q" and xm: "x mod q < q" using q by simp_all
    define k where "k = (y mod q * q + x mod q) * c + ch"
    note po = patch_offset[OF ym xm chb, folded k_def]
    have "elems (reassemble ?s q h w c) ! n
        = at3 ?s i (y div q * (w div q) + x div q) k"
      using n by (simp add: reassemble_def elems_build4_nth i_def y_def x_def ch_def k_def mult_ac)
    also have "\<dots> = elems patches ! (((i * rows + y div q) * cols + x div q) * (q * q * c) + k)"
      using w q by (simp add: at3_def algebra_simps)
    also have "\<dots> = at4 t i (y div q * q + k div (q * c)) (x div q * q + k div c mod q) (k mod c)"
      unfolding patches_def by (rule build4_at[OF ib yq xq po(4)])
    also have "\<dots> = at4 t i y x ch" by (simp add: po)
    also have "\<dots> = elems t ! (((i * h + y) * w + x) * c + ch)" by (simp add: at4_def dt)
    also have "\<dots> = elems t ! n"
      using radix_decode[of n c w h] by (simp add: i_def y_def x_def ch_def)
    finally show ?thesis .
  qed
  have len: "length (elems (reassemble ?s q h w c)) = length (elems t)"
    by (simp add: reassemble_def build4_def wf)
  have "elems (reassemble ?s q h w c) = elems t"
    by (rule nth_equalityI[OF len]) (use nth len wf in simp)
  moreover have "dims (reassemble ?s q h w c) = dims t"
    by (simp add: reassemble_def build4_def dt)
  ultimately show ?thesis by simp
qed

lemma valid_out_multiple: "0 < q \<Longrightarrow> valid_out (m * q) q = m"
proof (cases m)
  case 0
  assume "0 < q"
  then show ?thesis using 0 by (simp add: valid_out_def)
next
  case (Suc m')
  assume "0 < q"
  then show ?thesis using Suc by (simp add: valid_out_def)
qed

lemma reshape_shape_exact:
  "\<forall>d\<in>set tgt. 0 \<le> d \<Longrightarrow> prod_list (map nat tgt) = prod_list s
    \<Longrightarrow> reshape_shape s tgt = Inr (map nat tgt)"
proof -
  assume a: "\<forall>d\<in>set tgt. 0 \<le> d" and b: "prod_list (map nat tgt) = prod_list s"
  have f1: "filter (\<lambda>d. d \<noteq> -1) tgt = tgt" using a by (induction tgt) auto
  have f2: "filter (\<lambda>d. d = -1) tgt = []" using a by (induction tgt) auto
  have f3: "\<not> list_ex (\<lambda>d. d < -1) tgt" using a by (induction tgt) auto
  have f4: "\<not> list_ex (\<lambda>d. d = -1) tgt" using a by (induction tgt) auto
  show ?thesis using b by (simp add: reshape_shape_def Let_def f1 f2 f3 f4)
qed

lemma PatchExtract_call_square:
  fixes t :: "'a tensor"
  assumes dt: "dims t = [b, h, h, c]" and p: "0 < p" and dv: "nat p dvd h"
  shows "PatchExtract_call p t =
    Inr \<lparr>dims = [b, (h div nat p) * (h div nat p), nat p * nat p * c],
         elems = elems (build4 b (h div nat p) (h div nat p) (nat p * nat p * c)
           (\<lambda>i row col k. at4 t i (row * nat p + k div (nat p * c))
                             (col * nat p + k div c mod nat p) (k mod c)))\<rparr>"
proof -
  define q where "q = nat p"
  have q: "0 < q" using p by (simp add: q_def)
  obtain m where m: "h = m * q" using dv unfolding q_def by (metis dvd_div_mult_self)
  have vo: "valid_out h q = m" using valid_out_multiple[OF q] m by simp
  have hd: "h div q = m" using m q by simp
  have rs: "reshape_shape [b, m, m, q * q * c] [int b, int (m * m), int (q * q * c)]
      = Inr [b, m * m, q * q * c]"
  proof -
    have "reshape_shape [b, m, m, q * q * c] [int b, int (m * m), int (q * q * c)]
        = Inr (map nat [int b, int (m * m), int (q * q * c)])"
      by (rule reshape_shape_exact) (simp_all add: mult_ac del: of_nat_mult)
    then show ?thesis by (simp del: of_nat_mult)
  qed
  show ?thesis
    using dt p rs
    by (simp add: PatchExtract_call_def extract_patches_def reshape_def Let_def vo hd
        q_def[symmetric] build4_def del: of_nat_mult)
qed

text \<open>The shape rule of the layer in the graph is the shape that the call on a concrete
  tensor produces.\<close>

lemma PatchExtract_call_dims:
  "map_sum id dims (PatchExtract_call p t) = layer_shape (PatchExtractLayer p) [dims t]"
  by (auto simp: PatchExtract_call_def extract_patches_def reshape_def bindE_def Let_def
      build4_def split: list.splits sum.splits)

text \<open>
  Claim C6, as stated: for every image whose height and width are divisible by the patch
  size, \<open>PatchExtract\<close> returns \<open>(H / p) * (W / p)\<close> patches. It fails for an image that is
  not square: a 2 x 4 image with \<open>p = 2\<close> has 1 x 2 patches, the reshape asks for
  \<open>patch_num * patch_num = 1\<close> patch, and the call fails.
\<close>

theorem patch_sequence_shape_counterexample:
  "(2 :: nat) dvd 2 \<and> (2 :: nat) dvd 4
   \<and> PatchExtract_call 2 \<lparr>dims = [1, 2, 4, 1], elems = [1, 2, 3, 4, 5, 6, 7, 8 :: int]\<rparr>
       = Inl InvalidArgumentError"
  by (simp add: PatchExtract_call_def extract_patches_def reshape_def reshape_shape_def
      build4_def valid_out_def Let_def)


text \<open>
  Claim C6, amended: for every square \<open>H x H x C\<close> image whose side is divisible by the
  patch size, \<open>PatchExtract\<close> returns a sequence of \<open>(H / p) * (H / p)\<close> patches, each of
  dimension \<open>p * p * C\<close>.
\<close>

theorem patch_sequence_shape:
  fixes t :: "'a tensor"
  assumes "dims t = [b, h, h, c]" and "0 < p" and "nat p dvd h"
  shows "\<exists>s. PatchExtract_call p t = Inr s
           \<and> dims s = [b, (h div nat p) * (h div nat p), nat p * nat p * c]
           \<and> well_formed s"
  using PatchExtract_call_square[OF assms]
  by (simp add: well_formed_def build4_def mult_ac)

theorem patch_sequence_shape_witness:
  "\<exists>s. PatchExtract_call 2 \<lparr>dims = [1, 4, 4, 3], elems = replicate 48 (0 :: int)\<rparr> = Inr s
      \<and> dims s = [1, 4, 12]"
  using patch_sequence_shape[of "\<lparr>dims = [1, 4, 4, 3], elems = replicate 48 (0 :: int)\<rparr>" 1 4 3 2]
  by auto


text \<open>
  Claim C5, as stated: whenever the patch size divides both image dimensions, the patches
  can be put back together into the image. It fails for an image that is not square: on a
  4 x 2 image with \<open>p = 2\<close> the call fails and there are no patches to reassemble.
\<close>

theorem patch_roundtrip_counterexample:
  "(2 :: nat) dvd 4 \<and> (2 :: nat) dvd 2
   \<and> PatchExtract_call 2 \<lparr>dims = [1, 4, 2, 1], elems = [1, 2, 3, 4, 5, 6, 7, 8 :: int]\<rparr>
       = Inl InvalidArgumentError"
  by (simp add: PatchExtract_call_def extract_patches_def reshape_def reshape_shape_def
      build4_def valid_out_def Let_def)


text \<open>
  Claim C5, amended: for every square image whose side is divisible by the patch size,
  \<open>PatchExtract\<close> returns a patch sequence with as many elements as the image, and
  reassembling it in sequence order (row-major grid, row-major pixels within each patch)
  gives back the image exactly.
\<close>

theorem patch_roundtrip:
  fixes t :: "'a tensor"
  assumes dt: "dims t = [b, h, h, c]" and wf: "well_formed t" and p: "0 < p" and dv: "nat p dvd h"
  shows "\<exists>s. PatchExtract_call p t = Inr s
           \<and> length (elems s) = length (elems t)
           \<and> reassemble s (nat p) h h c = t"
proof -
  have q: "0 < nat p" using p by simp
  have hm: "h = (h div nat p) * nat p" using dv by simp
  have len: "length (elems t) = b * h * h * c" using wf dt by (simp add: well_formed_def mult_ac)
  have "reassemble \<lparr>dims = [b, (h div nat p) * (h div nat p), nat p * nat p * c],
         elems = elems (build4 b (h div nat p) (h div nat p) (nat p * nat p * c)
           (\<lambda>i row col k. at4 t i (row * nat p + k div (nat p * c))
                             (col * nat p + k div c mod nat p) (k mod c)))\<rparr> (nat p) h h c = t"
    by (rule reassemble_patches[OF dt len q hm hm])
  moreover have "length (elems (build4 b (h div nat p) (h div nat p) (nat p * nat p * c) f))
      = length (elems t)" for f :: "nat \<Rightarrow> nat \<Rightarrow> nat \<Rightarrow> nat \<Rightarrow> 'a"
  proof -
    have "b * (h div nat p) * (h div nat p) * (nat p * nat p * c)
        = b * ((h div nat p) * nat p) * ((h div nat p) * nat p) * c"
      by (simp add: mult_ac)
    also have "\<dots> = b * h * h * c" using hm by simp
    finally show ?thesis by (simp add: build4_def len)
  qed
  ultimately show ?thesis
    using PatchExtract_call_square[OF dt p dv] by simp
qed

theorem patch_roundtrip_witness:
  "\<exists>s. PatchExtract_call 2 \<lparr>dims = [1, 4, 4, 1], elems = [0, 1, 2, 3, 4, 5, 6, 7, 8, 9, 10, 11, 12, 13, 14, 15 :: int]\<rparr> = Inr s
      \<and> elems s = [0, 1, 4, 5, 2, 3, 6, 7, 8, 9, 12, 13, 10, 11, 14, 15]
      \<and> reassemble s 2 4 4 1
          = \<lparr>dims = [1, 4, 4, 1], elems = [0, 1, 2, 3, 4, 5, 6, 7, 8, 9, 10, 11, 12, 13, 14, 15]\<rparr>"
proof -
  have e: "PatchExtract_call 2 \<lparr>dims = [1, 4, 4, 1], elems = [0, 1, 2, 3, 4, 5, 6, 7, 8, 9, 10, 11, 12, 13, 14, 15 :: int]\<rparr>
      = Inr \<lparr>dims = [1, 4, 4], elems = [0, 1, 4, 5, 2, 3, 6, 7, 8, 9, 12, 13, 10, 11, 14, 15]\<rparr>"
    by code_simp
  have "\<exists>s. PatchExtract_call 2 \<lparr>dims = [1, 4, 4, 1], elems = [0, 1, 2, 3, 4, 5, 6, 7, 8, 9, 10, 11, 12, 13, 14, 15 :: int]\<rparr> = Inr s
      \<and> reassemble s 2 4 4 1
          = \<lparr>dims = [1, 4, 4, 1], elems = [0, 1, 2, 3, 4, 5, 6, 7, 8, 9, 10, 11, 12, 13, 14, 15]\<rparr>"
    using patch_roundtrip[of "\<lparr>dims = [1, 4, 4, 1], elems = [0, 1, 2, 3, 4, 5, 6, 7, 8, 9, 10, 11, 12, 13, 14, 15 :: int]\<rparr>" 1 4 1 2]
    by (auto simp: well_formed_def)
  then show ?thesis unfolding e by auto
qed

subsection \<open>Reading a tensor that was built from a function\<close>

lemma at4_build4:
  assumes "i < d0" and "j < d1" and "k < d2" and "l < d3"
  shows "at4 (build4 d0 d1 d2 d3 f) i j k l = f i j k l"
proof -
  have "at4 (build4 d0 d1 d2 d3 f) i j k l
      = elems (build4 d0 d1 d2 d3 f) ! (((i * d1 + j) * d2 + k) * d3 + l)"
    by (simp add: at4_def build4_def)
  then show ?thesis using build4_at[OF assms] by simp
qed

lemma dims_build4 [simp]: "dims (build4 d0 d1 d2 d3 f) = [d0, d1, d2, d3]"
  by (simp add: build4_def)

subsection \<open>Rounding to float32\<close>

text \<open>Rounding to the nearest integer misses by at most one half, keeps the integers and
  is monotone.\<close>

lemma rne_close: "\<bar>of_int (rne y) - y\<bar> \<le> 1 / 2"
  unfolding rne_def Let_def by (auto simp: abs_if) linarith+

lemma rne_of_int [simp]: "rne (of_int n) = n"
  by (simp add: rne_def)

lemma rne_mono: "y1 \<le> y2 \<Longrightarrow> rne y1 \<le> rne y2"
proof -
  assume le: "y1 \<le> y2"
  have f: "\<lfloor>y1\<rfloor> \<le> \<lfloor>y2\<rfloor>" using le by (rule floor_mono)
  have up: "rne y \<le> \<lfloor>y\<rfloor> + 1" and lo: "\<lfloor>y\<rfloor> \<le> rne y" for y
    by (simp_all add: rne_def Let_def)
  show ?thesis
  proof (cases "\<lfloor>y1\<rfloor> < \<lfloor>y2\<rfloor>")
    case True
    then show ?thesis using up[of y1] lo[of y2] by linarith
  next
    case False
    then have eq: "\<lfloor>y1\<rfloor> = \<lfloor>y2\<rfloor>" using f by simp
    then show ?thesis using le by (auto simp: rne_def Let_def)
  qed
qed

text \<open>The spacing of the float32 numbers around \<open>x\<close>.\<close>

lemma floor_log2_bounds:
  assumes "0 < x"
  shows "2 powr (of_int \<lfloor>log 2 x\<rfloor>) \<le> x" and "x < 2 powr (of_int (\<lfloor>log 2 x\<rfloor> + 1))"
  using floor_log_eq_powr_iff[of x 2 "\<lfloor>log 2 x\<rfloor>"] assms by simp_all

lemma ulp32_pos: "0 < ulp32 x"
  by (simp add: ulp32_def)

lemma round32_error: "\<bar>round32 x - x\<bar> \<le> ulp32 x / 2"
proof (cases "x = 0")
  case True
  then show ?thesis using ulp32_pos[of x] by (simp add: round32_def)
next
  case False
  have "\<bar>of_int (rne (x / ulp32 x)) - x / ulp32 x\<bar> \<le> 1 / 2" by (rule rne_close)
  then have "\<bar>of_int (rne (x / ulp32 x)) - x / ulp32 x\<bar> * ulp32 x \<le> 1 / 2 * ulp32 x"
    using ulp32_pos[of x] by (intro mult_right_mono) simp_all
  moreover have "\<bar>of_int (rne (x / ulp32 x)) - x / ulp32 x\<bar> * ulp32 x
      = \<bar>of_int (rne (x / ulp32 x)) * ulp32 x - x\<bar>"
  proof -
    have "\<bar>of_int (rne (x / ulp32 x)) - x / ulp32 x\<bar> * ulp32 x
        = \<bar>(of_int (rne (x / ulp32 x)) - x / ulp32 x) * ulp32 x\<bar>"
      using ulp32_pos[of x] by (simp add: abs_mult)
    also have "(of_int (rne (x / ulp32 x)) - x / ulp32 x) * ulp32 x
        = of_int (rne (x / ulp32 x)) * ulp32 x - x"
      using ulp32_pos[of x] by (simp add: left_diff_distrib)
    finally show ?thesis .
  qed
  ultimately show ?thesis using False by (simp add: round32_def)
qed

lemma exponent32_normal:
  assumes "1 / 2 ^ 126 \<le> x"
  shows "exponent32 x = \<lfloor>log 2 x\<rfloor>"
proof -
  have "(0::real) < 1 / 2 ^ 126" by simp
  then have x: "0 < x" using assms by linarith
  have "2 powr (- 126) \<le> x" using assms by (simp add: powr_minus_divide)
  then have "- 126 \<le> log 2 x" using x by (simp add: le_log_iff)
  then have "- 126 \<le> \<lfloor>log 2 x\<rfloor>" by (simp add: le_floor_iff)
  then show ?thesis using x by (simp add: exponent32_def)
qed

lemma ulp32_normal:
  assumes "1 / 2 ^ 126 \<le> x"
  shows "ulp32 x \<le> x / 2 ^ 23"
proof -
  have "(0::real) < 1 / 2 ^ 126" by simp
  then have x: "0 < x" using assms by linarith
  have "ulp32 x = 2 powr (of_int \<lfloor>log 2 x\<rfloor>) / 2 ^ 23"
    by (simp add: ulp32_def exponent32_normal[OF assms] powr_diff)
  also have "\<dots> \<le> x / 2 ^ 23"
    using floor_log2_bounds(1)[OF x] by (intro divide_right_mono) simp_all
  finally show ?thesis .
qed

lemma ulp32_subnormal:
  assumes x: "0 < x" and "x < 1 / 2 ^ 126"
  shows "ulp32 x = 1 / 2 ^ 149"
proof -
  have e: "exponent32 x = - 126"
  proof -
    have "x < 2 powr (- 126)" using assms by (simp add: powr_minus_divide)
    then have "log 2 x < - 126" using x by (simp add: log_less_iff)
    then have "\<lfloor>log 2 x\<rfloor> < - 126" by (simp add: floor_less_iff)
    then show ?thesis using x by (simp add: exponent32_def)
  qed
  show ?thesis by (simp add: ulp32_def e powr_minus_divide)
qed

lemma ulp32_times: "ulp32 x * 2 ^ 23 = 2 powr (real_of_int (exponent32 x))"
  by (simp add: ulp32_def powr_diff)

lemma round32_pos_eq: "x \<noteq> 0 \<Longrightarrow> round32 x = of_int (rne (x / ulp32 x)) * ulp32 x"
  by (simp add: round32_def)

text \<open>A rounded number stays within the binade of the number it comes from, so the
  rounding is monotone also across binades.\<close>

lemma round32_upper:
  assumes x: "0 < x"
  shows "round32 x \<le> 2 powr (of_int (exponent32 x + 1))"
proof -
  have "x < 2 powr (of_int (\<lfloor>log 2 x\<rfloor> + 1))" by (rule floor_log2_bounds(2)[OF x])
  also have "\<dots> \<le> 2 powr (of_int (exponent32 x + 1))"
    using x by (simp add: exponent32_def)
  finally have "x < 2 powr (of_int (exponent32 x + 1))" .
  also have "\<dots> = 2 * (ulp32 x * 2 ^ 23)"
    using ulp32_times[of x] by (simp add: powr_add)
  finally have "x / ulp32 x \<le> of_int (2 ^ 24)"
    using ulp32_pos[of x] by (simp add: field_simps)
  then have "rne (x / ulp32 x) \<le> 2 ^ 24"
    using rne_mono[of "x / ulp32 x" "of_int (2 ^ 24)"] by (simp only: rne_of_int)
  then have "of_int (rne (x / ulp32 x)) \<le> (2 ^ 24 :: real)"
    by (metis of_int_le_iff of_int_numeral of_int_power)
  then have "of_int (rne (x / ulp32 x)) * ulp32 x \<le> 2 ^ 24 * ulp32 x"
    using ulp32_pos[of x] by (intro mult_right_mono) simp_all
  also have "\<dots> = 2 powr (of_int (exponent32 x + 1))"
    using ulp32_times[of x] by (simp add: powr_add)
  finally show ?thesis using x by (simp add: round32_pos_eq)
qed

lemma round32_lower:
  assumes x: "0 < x" and e: "- 126 < exponent32 x"
  shows "2 powr (of_int (exponent32 x)) \<le> round32 x"
proof -
  have ee: "exponent32 x = \<lfloor>log 2 x\<rfloor>" using e x by (simp add: exponent32_def max_def split: if_splits)
  have "2 powr (of_int (exponent32 x)) \<le> x"
    unfolding ee by (rule floor_log2_bounds(1)[OF x])
  then have "ulp32 x * 2 ^ 23 \<le> x" using ulp32_times[of x] by simp
  then have "of_int (2 ^ 23) \<le> x / ulp32 x"
    using ulp32_pos[of x] by (simp add: field_simps)
  then have "2 ^ 23 \<le> rne (x / ulp32 x)"
    using rne_mono[of "of_int (2 ^ 23)" "x / ulp32 x"] by (simp only: rne_of_int)
  then have "(2 ^ 23 :: real) \<le> of_int (rne (x / ulp32 x))"
    by (metis of_int_le_iff of_int_numeral of_int_power)
  then have "2 ^ 23 * ulp32 x \<le> of_int (rne (x / ulp32 x)) * ulp32 x"
    using ulp32_pos[of x] by (intro mult_right_mono) simp_all
  then show ?thesis using x ulp32_times[of x] by (simp add: round32_pos_eq mult.commute)
qed

lemma round32_nonneg: "0 \<le> x \<Longrightarrow> 0 \<le> round32 x"
proof (cases "x = 0")
  case True
  then show ?thesis by (simp add: round32_def)
next
  case False
  assume "0 \<le> x"
  then have "0 \<le> x / ulp32 x" using ulp32_pos[of x] by simp
  then have "rne 0 \<le> rne (x / ulp32 x)" by (rule rne_mono)
  then have "0 \<le> rne (x / ulp32 x)" using rne_of_int[of 0] by simp
  then show ?thesis using False ulp32_pos[of x] by (simp add: round32_pos_eq)
qed

lemma exponent32_mono:
  assumes "0 < x" and "x \<le> y"
  shows "exponent32 x \<le> exponent32 y"
proof -
  have "log 2 x \<le> log 2 y" using assms by simp
  then have "\<lfloor>log 2 x\<rfloor> \<le> \<lfloor>log 2 y\<rfloor>" by (rule floor_mono)
  then show ?thesis using assms by (simp add: exponent32_def)
qed

lemma round32_mono:
  assumes "0 \<le> x" and "x \<le> y"
  shows "round32 x \<le> round32 y"
proof (cases "x = 0")
  case True
  then show ?thesis using round32_nonneg[of y] assms by (simp add: round32_def)
next
  case False
  then have x: "0 < x" and y: "0 < y" using assms by simp_all
  have le: "exponent32 x \<le> exponent32 y" by (rule exponent32_mono[OF x assms(2)])
  show ?thesis
  proof (cases "exponent32 x = exponent32 y")
    case True
    then have u: "ulp32 y = ulp32 x" by (simp add: ulp32_def)
    have "x / ulp32 x \<le> y / ulp32 x"
      using assms(2) ulp32_pos[of x] by (intro divide_right_mono) simp_all
    then have "rne (x / ulp32 x) \<le> rne (y / ulp32 x)" by (rule rne_mono)
    then have "of_int (rne (x / ulp32 x)) * ulp32 x \<le> of_int (rne (y / ulp32 x)) * ulp32 x"
      using ulp32_pos[of x] by (intro mult_right_mono) simp_all
    then show ?thesis using x y by (simp add: round32_pos_eq u)
  next
    case False
    then have lt: "exponent32 x + 1 \<le> exponent32 y" using le by simp
    have "- 126 \<le> exponent32 x" by (simp add: exponent32_def)
    then have e: "- 126 < exponent32 y" using lt by simp
    have "round32 x \<le> 2 powr (of_int (exponent32 x + 1))" by (rule round32_upper[OF x])
    also have "\<dots> \<le> 2 powr (of_int (exponent32 y))" using lt by simp
    also have "\<dots> \<le> round32 y" by (rule round32_lower[OF y e])
    finally show ?thesis .
  qed
qed

text \<open>Rounding to the nearest float32 number is a \<open>float_rounding\<close>, and adding from left
  to right is a \<open>nonneg_sum\<close>.\<close>

lemma float_rounding_round32: "float_rounding round32"
proof -
  have z: "round32 0 = 0" by (simp add: round32_def)
  have m: "\<forall>x y. 0 \<le> x \<and> x \<le> y \<longrightarrow> round32 x \<le> round32 y"
    using round32_mono by blast
  have r: "\<bar>round32 x - x\<bar> \<le> x / 2 ^ 24" if "1 / 2 ^ 126 \<le> x" for x
  proof -
    have "\<bar>round32 x - x\<bar> \<le> ulp32 x / 2" by (rule round32_error)
    also have "\<dots> \<le> (x / 2 ^ 23) / 2" using ulp32_normal[OF that] by simp
    finally show ?thesis by simp
  qed
  have a: "\<bar>round32 x - x\<bar> \<le> 1 / 2 ^ 126" if "0 \<le> x" "x < 1 / 2 ^ 126" for x
  proof (cases "x = 0")
    case True
    then show ?thesis by (simp add: z)
  next
    case False
    then have x: "0 < x" using that by simp
    have "\<bar>round32 x - x\<bar> \<le> ulp32 x / 2" by (rule round32_error)
    also have "\<dots> = (1 / 2 ^ 149) / 2" using ulp32_subnormal[OF x that(2)] by simp
    also have "\<dots> \<le> 1 / 2 ^ 126" by simp
    finally show ?thesis .
  qed
  show ?thesis unfolding float_rounding_def using z m r a by blast
qed

lemma rsum32_nonneg: "nonneg_sum rsum32"
proof -
  have "0 \<le> foldl (\<lambda>acc x. round32 (acc + x)) acc xs"
    if "0 \<le> acc" "\<forall>x\<in>set xs. 0 \<le> x" for acc :: real and xs
    using that
  proof (induction xs arbitrary: acc)
    case Nil
    then show ?case by simp
  next
    case (Cons x xs)
    have "0 \<le> round32 (acc + x)" using Cons.prems by (intro round32_nonneg) simp
    then show ?case using Cons by simp
  qed
  then show ?thesis by (simp add: nonneg_sum_def rsum32_def)
qed





subsection \<open>What every rounding gives\<close>

lemma float_rounding_mono: "float_rounding rnd \<Longrightarrow> 0 \<le> x \<Longrightarrow> x \<le> y \<Longrightarrow> rnd x \<le> rnd y"
  unfolding float_rounding_def by blast

lemma float_rounding_rel:
  "float_rounding rnd \<Longrightarrow> 1 / 2 ^ 126 \<le> x \<Longrightarrow> x \<le> 2 ^ 127 \<Longrightarrow> \<bar>rnd x - x\<bar> \<le> x / 2 ^ 24"
  unfolding float_rounding_def by blast



lemma float_rounding_lower:
  assumes "float_rounding rnd" and "1 / 2 ^ 126 \<le> x" and "x \<le> 2 ^ 127"
  shows "x * (1 - 1 / 2 ^ 24) \<le> rnd x"
proof -
  have "\<bar>rnd x - x\<bar> \<le> x / 2 ^ 24" by (rule float_rounding_rel[OF assms])
  then have "x - x / 2 ^ 24 \<le> rnd x" by linarith
  then show ?thesis by (simp add: algebra_simps)
qed

lemma float_rounding_upper:
  assumes "float_rounding rnd" and "1 / 2 ^ 126 \<le> x" and "x \<le> 2 ^ 127"
  shows "rnd x \<le> x * (1 + 1 / 2 ^ 24)"
proof -
  have "\<bar>rnd x - x\<bar> \<le> x / 2 ^ 24" by (rule float_rounding_rel[OF assms])
  then have "rnd x \<le> x + x / 2 ^ 24" by linarith
  then show ?thesis by (simp add: algebra_simps)
qed

lemma rounding_le:
  assumes "float_rounding rnd" and "0 \<le> x" and "x \<le> y" and "1 / 2 ^ 126 \<le> y" and "y \<le> 2 ^ 127"
    and "y * (1 + 1 / 2 ^ 24) \<le> z"
  shows "rnd x \<le> z"
proof -
  have "rnd x \<le> rnd y" by (rule float_rounding_mono[OF assms(1-3)])
  also have "\<dots> \<le> y * (1 + 1 / 2 ^ 24)" by (rule float_rounding_upper[OF assms(1) assms(4,5)])
  finally show ?thesis using assms(6) by simp
qed

lemma rounding_ge:
  assumes "float_rounding rnd" and "y \<le> x" and "1 / 2 ^ 126 \<le> y" and "y \<le> 2 ^ 127"
    and "z \<le> y * (1 - 1 / 2 ^ 24)"
  shows "z \<le> rnd x"
proof -
  have "(0::real) < 1 / 2 ^ 126" by simp
  then have y: "0 \<le> y" using assms(3) by linarith
  have "z \<le> y * (1 - 1 / 2 ^ 24)" by (rule assms(5))
  also have "\<dots> \<le> rnd y" by (rule float_rounding_lower[OF assms(1) assms(3,4)])
  also have "\<dots> \<le> rnd x" by (rule float_rounding_mono[OF assms(1) y assms(2)])
  finally show ?thesis .
qed

subsection \<open>The entries of the re-normalised attention map\<close>

text \<open>On a rank-4 tensor the re-normalisation returns, and each entry of the result is
  the rounded quotient of the entry and the divisor of its row. The divisor is at least
  \<open>2 ^ -31\<close>: the float32 value of \<^verbatim>\<open>1e-9\<close> is above \<open>2 ^ -30\<close> and the sum is not
  negative.\<close>

lemma at4_add_scalar_build4:
  assumes "i < d0" and "j < d1" and "k < d2" and "l < d3"
  shows "at4 (add_scalar rnd c (build4 d0 d1 d2 d3 f)) i j k l = rnd (rnd c + f i j k l)"
proof -
  have n: "((i * d1 + j) * d2 + k) * d3 + l < d0 * d1 * d2 * d3" by (rule radix_bound[OF assms])
  have "at4 (add_scalar rnd c (build4 d0 d1 d2 d3 f)) i j k l
      = map (\<lambda>v. rnd (rnd c + v)) (elems (build4 d0 d1 d2 d3 f))
          ! (((i * d1 + j) * d2 + k) * d3 + l)"
    by (simp add: at4_def add_scalar_def)
  also have "\<dots> = rnd (rnd c + elems (build4 d0 d1 d2 d3 f) ! (((i * d1 + j) * d2 + k) * d3 + l))"
    using n by (simp add: build4_def)
  finally show ?thesis using build4_at[OF assms, of f] by simp
qed

lemma renormalization_entries:
  assumes da: "dims a = [b, h, n, w]"
  obtains r where "renormalization rnd rsum a = Inr r" and "dims r = [b, h, n, w]"
    and "\<And>i j k l. i < b \<Longrightarrow> j < h \<Longrightarrow> k < n \<Longrightarrow> l < w \<Longrightarrow>
           at4 r i j k l = rnd (at4 a i j k l / divisor rnd rsum a i j k)"
proof -
  define s where "s = build4 b h n 1 (\<lambda>i j k l. rsum (row a i j k))"
  define r where
    "r = build4 b h n w (\<lambda>i j k l. rnd (at4 a i j k l / at4 (add_scalar rnd (1 / 10 ^ 9) s) i j k 0))"
  have rs: "reduce_sum_last rsum a = Inr s" using da by (simp add: reduce_sum_last_def s_def)
  have ds: "dims (add_scalar rnd (1 / 10 ^ 9) s) = [b, h, n, 1]"
    by (simp add: add_scalar_def s_def)
  have rn: "renormalization rnd rsum a = Inr r"
    using da ds by (simp add: renormalization_def rs divide_last_broadcast_def r_def)
  have den: "at4 (add_scalar rnd (1 / 10 ^ 9) s) i j k 0 = divisor rnd rsum a i j k"
    if "i < b" "j < h" "k < n" for i j k
    unfolding s_def using that by (simp add: at4_add_scalar_build4 divisor_def)
  have ent: "at4 r i j k l = rnd (at4 a i j k l / divisor rnd rsum a i j k)"
    if "i < b" "j < h" "k < n" "l < w" for i j k l
    unfolding r_def using that den[of i j k] by (simp add: at4_build4)
  have dr: "dims r = [b, h, n, w]" by (simp add: r_def)
  show ?thesis using that[OF rn dr ent] by blast
qed

lemma divisor_lower:
  assumes fr: "float_rounding rnd" and ns: "nonneg_sum rsum"
    and nn: "\<forall>x\<in>set (row a i j k). 0 \<le> x"
  shows "1 / 2 ^ 31 \<le> divisor rnd rsum a i j k"
proof -
  have s: "0 \<le> rsum (row a i j k)" using ns nn by (simp add: nonneg_sum_def)
  have "(1 / 2 ^ 30 :: real) \<le> 1 / 10 ^ 9 * (1 - 1 / 2 ^ 24)" by simp
  also have "\<dots> \<le> rnd (1 / 10 ^ 9)" by (rule float_rounding_lower[OF fr]) simp_all
  finally have e0: "1 / 2 ^ 30 \<le> rnd (1 / 10 ^ 9)" .
  have "(1 / 2 ^ 31 :: real) \<le> 1 / 2 ^ 30 * (1 - 1 / 2 ^ 24)" by simp
  also have "\<dots> \<le> rnd (1 / 2 ^ 30)" by (rule float_rounding_lower[OF fr]) simp_all
  also have "\<dots> \<le> rnd (rnd (1 / 10 ^ 9) + rsum (row a i j k))"
    using e0 s by (intro float_rounding_mono[OF fr]) simp_all
  finally show ?thesis by (simp add: divisor_def)
qed


lemma row_nonneg:
  "dims t = [b, h, n, w] \<Longrightarrow> \<forall>l<w. 0 \<le> at4 t i j k l \<Longrightarrow> \<forall>x\<in>set (row t i j k). 0 \<le> x"
  by (auto simp add: row_def)



text \<open>Two patches and two columns: when the first patch has the larger entry in column 0
  and a large entry in column 1, and the second patch a small entry in column 1, the
  first patch has the smaller entry in column 0 after the re-normalisation.\<close>

lemma patch_order_flips:
  assumes p: "7 / 10 \<le> p" "p \<le> 3 / 4" and q: "1 / 4 \<le> q" "q \<le> 3 / 10"
    and s: "99 / 100 \<le> s" "s \<le> 1" and t: "0 \<le> t" "t \<le> 1 / 100"
  shows "\<exists>r. renormalization round32 rsum32 \<lparr>dims = [1, 1, 2, 2], elems = [p, s, q, t]\<rparr> = Inr r
           \<and> at4 r 0 0 0 0 \<le> 47 / 100 \<and> 68 / 100 \<le> at4 r 0 0 1 0"
proof -
  define a where "a = \<lparr>dims = [1, 1, 2, 2], elems = [p, s, q, t]\<rparr>"
  note fr = float_rounding_round32
  have da: "dims a = [1, 1, 2, 2]" by (simp add: a_def)
  obtain r where rn: "renormalization round32 rsum32 a = Inr r"
    and ent: "\<And>i j k l. i < 1 \<Longrightarrow> j < 1 \<Longrightarrow> k < 2 \<Longrightarrow> l < 2 \<Longrightarrow>
           at4 r i j k l = round32 (at4 a i j k l / divisor round32 rsum32 a i j k)"
    by (rule renormalization_entries[OF da, where rnd = round32 and rsum = rsum32]) blast
  define c0 where "c0 = divisor round32 rsum32 a 0 0 0"
  define c1 where "c1 = divisor round32 rsum32 a 0 0 1"
  have r0: "at4 r 0 0 0 0 = round32 (p / c0)"
    using ent[of 0 0 0 0] by (simp add: a_def at4_def c0_def)
  have r1: "at4 r 0 0 1 0 = round32 (q / c1)"
    using ent[of 0 0 1 0] by (simp add: a_def at4_def c1_def)
  have e0: "0 \<le> round32 (1 / 10 ^ 9)" by (rule round32_nonneg) simp
  have e1: "round32 (1 / 10 ^ 9) \<le> 2 / 100"
    by (rule rounding_le[OF fr, where y = "1 / 100"]) simp_all
  have c0: "c0 = round32 (round32 (1 / 10 ^ 9) + round32 (round32 p + s))"
    by (simp add: c0_def divisor_def a_def row_def at4_def upt_rec rsum32_def)
  have c1: "c1 = round32 (round32 (1 / 10 ^ 9) + round32 (round32 q + t))"
    by (simp add: c1_def divisor_def a_def row_def at4_def upt_rec rsum32_def)
  have "69 / 100 \<le> round32 p"
    using p by (intro rounding_ge[OF fr, where y = "7 / 10"]) simp_all
  then have "168 / 100 \<le> round32 p + s" using s by linarith
  then have "167 / 100 \<le> round32 (round32 p + s)"
    by (intro rounding_ge[OF fr, where y = "168 / 100"]) simp_all
  then have "167 / 100 \<le> round32 (1 / 10 ^ 9) + round32 (round32 p + s)" using e0 by linarith
  then have "166 / 100 \<le> round32 (round32 (1 / 10 ^ 9) + round32 (round32 p + s))"
    by (intro rounding_ge[OF fr, where y = "167 / 100"]) simp_all
  then have c0l: "166 / 100 \<le> c0" by (simp only: c0)
  then have c0p: "0 < c0" by linarith
  have "p \<le> 46 / 100 * c0" using p c0l by linarith
  then have "p / c0 \<le> 46 / 100" using c0p by (simp add: field_simps)
  moreover have "0 \<le> p / c0" using p c0p by simp
  ultimately have "round32 (p / c0) \<le> 47 / 100"
    by (intro rounding_le[OF fr, where y = "46 / 100"]) simp_all
  then have b0: "at4 r 0 0 0 0 \<le> 47 / 100" by (simp only: r0)
  have q0: "0 \<le> round32 q" using q by (intro round32_nonneg) simp
  have "round32 q \<le> 31 / 100"
    using q by (intro rounding_le[OF fr, where y = "3 / 10"]) simp_all
  then have "round32 q + t \<le> 32 / 100" "0 \<le> round32 q + t" using t q0 by linarith+
  then have s1: "round32 (round32 q + t) \<le> 33 / 100" "0 \<le> round32 (round32 q + t)"
    by (intro rounding_le[OF fr, where y = "32 / 100"] round32_nonneg; simp)+
  then have "round32 (1 / 10 ^ 9) + round32 (round32 q + t) \<le> 35 / 100"
    "0 \<le> round32 (1 / 10 ^ 9) + round32 (round32 q + t)" using e0 e1 by linarith+
  then have "round32 (round32 (1 / 10 ^ 9) + round32 (round32 q + t)) \<le> 36 / 100"
    by (intro rounding_le[OF fr, where y = "35 / 100"]) simp_all
  then have c1u: "c1 \<le> 36 / 100" by (simp only: c1)
  have "nonneg_sum rsum32" by (rule rsum32_nonneg)
  moreover have "\<forall>x\<in>set (row a 0 0 1). 0 \<le> x" using q t by (simp add: a_def row_def at4_def upt_rec)
  ultimately have "1 / 2 ^ 31 \<le> c1" unfolding c1_def by (rule divisor_lower[OF fr])
  moreover have "(0::real) < 1 / 2 ^ 31" by simp
  ultimately have c1p: "0 < c1" by linarith
  have "69 / 100 * c1 \<le> q" using q c1u by linarith
  then have "69 / 100 \<le> q / c1" using c1p by (simp add: field_simps)
  then have "68 / 100 \<le> round32 (q / c1)"
    by (intro rounding_ge[OF fr, where y = "69 / 100"]) simp_all
  then have b1: "68 / 100 \<le> at4 r 0 0 1 0" by (simp only: r1)
  show ?thesis using rn b0 b1 unfolding a_def by blast
qed


subsection \<open>Row sums after the re-normalisation\<close>





subsection \<open>Order of the scores after the re-normalisation\<close>

text \<open>
  Claim C4, as stated: the re-normalisation never changes the order of two scores along
  the softmax (patch) axis. The divisor is the sum of a patch's row, and two patches have
  different ones. For the scores \<open>[1, 100]\<close> of patch 0 and \<open>[0, 0]\<close> of patch 1 the float32
  softmax over the patch axis gives the rows \<open>[1533141 / 2 ^ 21, 1]\<close> (about 0.731 and 1)
  and \<open>[9024177 / 2 ^ 25, 27 / 2 ^ 149]\<close> (about 0.269 and \<open>3.8e-44\<close>): in column 0
  patch 0 has the larger score after the softmax and the smaller one after the
  re-normalisation.
\<close>

theorem renormalization_patch_order_counterexample:
  "case renormalization round32 rsum32
          \<lparr>dims = [1, 1, 2, 2], elems = [1533141 / 2 ^ 21, 1, 9024177 / 2 ^ 25, 27 / 2 ^ 149]\<rparr> of
     Inl e \<Rightarrow> False
   | Inr r \<Rightarrow>
       at4 \<lparr>dims = [1, 1, 2, 2], elems = [1533141 / 2 ^ 21, 1, 9024177 / 2 ^ 25, 27 / 2 ^ 149 :: real]\<rparr> 0 0 1 0
         < at4 \<lparr>dims = [1, 1, 2, 2], elems = [1533141 / 2 ^ 21, 1, 9024177 / 2 ^ 25, 27 / 2 ^ 149 :: real]\<rparr> 0 0 0 0
       \<and> at4 r 0 0 0 0 < at4 r 0 0 1 0"
proof -
  obtain r where "renormalization round32 rsum32
          \<lparr>dims = [1, 1, 2, 2], elems = [1533141 / 2 ^ 21, 1, 9024177 / 2 ^ 25, 27 / 2 ^ 149]\<rparr> = Inr r"
    and "at4 r 0 0 0 0 \<le> 47 / 100" and "68 / 100 \<le> at4 r 0 0 1 0"
    using patch_order_flips[of "1533141 / 2 ^ 21" "9024177 / 2 ^ 25" 1 "27 / 2 ^ 149"] by auto
  then show ?thesis by (simp add: at4_def)
qed


text \<open>
  Claim C4, amended: the re-normalisation divides all scores of one patch (one row along
  the last axis) by the same positive float32 number, so it never reverses the order of
  two scores of the same patch along the last axis: a score that was not above another
  one after the softmax is not above it after the re-normalisation, and a score that is
  below another one after the re-normalisation was below it after the softmax.
\<close>

theorem renormalization_row_order:
  assumes fr: "float_rounding rnd" and ns: "nonneg_sum rsum"
    and da: "dims a = [b, h, n, w]" and i: "i < b" and j: "j < h" and k: "k < n"
    and l1: "l1 < w" and l2: "l2 < w"
    and en: "\<forall>l<w. 0 \<le> at4 a i j k l"
  shows "\<exists>r. renormalization rnd rsum a = Inr r
           \<and> (at4 a i j k l1 \<le> at4 a i j k l2 \<longrightarrow> at4 r i j k l1 \<le> at4 r i j k l2)
           \<and> (at4 r i j k l1 < at4 r i j k l2 \<longrightarrow> at4 a i j k l1 < at4 a i j k l2)"
proof -
  define c where "c = divisor rnd rsum a i j k"
  obtain r where rn: "renormalization rnd rsum a = Inr r" and dr: "dims r = [b, h, n, w]"
    and ent: "\<And>i j k l. i < b \<Longrightarrow> j < h \<Longrightarrow> k < n \<Longrightarrow> l < w \<Longrightarrow>
           at4 r i j k l = rnd (at4 a i j k l / divisor rnd rsum a i j k)"
    by (rule renormalization_entries[OF da, where rnd = rnd and rsum = rsum]) blast
  have nn: "\<forall>x\<in>set (row a i j k). 0 \<le> x" using en by (intro row_nonneg[OF da]) simp
  have c: "1 / 2 ^ 31 \<le> c" unfolding c_def by (rule divisor_lower[OF fr ns nn])
  have "(0::real) < 1 / 2 ^ 31" by simp
  then have cpos: "0 < c" using c by linarith
  have mono: "at4 r i j k x \<le> at4 r i j k y"
    if "x < w" "y < w" "at4 a i j k x \<le> at4 a i j k y" for x y
  proof -
    have "0 \<le> at4 a i j k x / c" using en that(1) cpos by simp
    moreover have "at4 a i j k x / c \<le> at4 a i j k y / c"
      using that(3) cpos by (simp add: divide_right_mono)
    ultimately have "rnd (at4 a i j k x / c) \<le> rnd (at4 a i j k y / c)"
      by (rule float_rounding_mono[OF fr])
    then show ?thesis using ent[OF i j k that(1)] ent[OF i j k that(2)] by (simp add: c_def)
  qed
  have m1: "at4 a i j k l1 \<le> at4 a i j k l2 \<longrightarrow> at4 r i j k l1 \<le> at4 r i j k l2"
    using mono[OF l1 l2] by blast
  have m2: "at4 r i j k l1 < at4 r i j k l2 \<longrightarrow> at4 a i j k l1 < at4 a i j k l2"
    using mono[OF l2 l1] by fastforce
  show ?thesis using rn m1 m2 by blast
qed

theorem renormalization_row_order_witness:
  "\<exists>r. renormalization round32 rsum32 \<lparr>dims = [1, 1, 2, 2], elems = [1 / 4, 3 / 4, 3 / 4, 1 / 4]\<rparr> = Inr r
      \<and> at4 r 0 0 0 0 \<le> at4 r 0 0 0 1"
  using renormalization_row_order[OF float_rounding_round32 rsum32_nonneg,
      of "\<lparr>dims = [1, 1, 2, 2], elems = [1 / 4, 3 / 4, 3 / 4, 1 / 4]\<rparr>" 1 1 2 2 0 0 0 0 1]
  by (simp add: at4_def less_2_cases_iff)

subsection \<open>The model is built\<close>

text \<open>With a square input, a patch size that divides its side, \<open>num_patches\<close> as the
  notebook computes it and valid block hyperparameters, \<open>get_model\<close> returns the output
  tensor of the classifier.\<close>

lemma data_augmentation_valid:
  "\<exists>t. data_augmentation x = Inr t \<and> shape t = shape x"
  by (simp add: data_augmentation_def call_def)

lemma patch_extract_layer_shape:
  assumes p: "0 < p" and dv: "nat p dvd h"
  shows "layer_shape (PatchExtractLayer p) [[b, h, h, c]]
     = Inr [b, (h div nat p) * (h div nat p), nat p * nat p * c]"
proof -
  define q where "q = nat p"
  have q: "0 < q" using p by (simp add: q_def)
  obtain m where m: "h = m * q" using dv unfolding q_def by (metis dvd_div_mult_self)
  have vo: "valid_out h q = m" using valid_out_multiple[OF q] m by simp
  have hd: "h div q = m" using m q by simp
  have rs: "reshape_shape [b, m, m, q * q * c] [int b, int m * int m, int (q * q * c)]
      = Inr [b, m * m, q * q * c]"
  proof -
    have "reshape_shape [b, m, m, q * q * c] [int b, int (m * m), int (q * q * c)]
        = Inr (map nat [int b, int (m * m), int (q * q * c)])"
      by (rule reshape_shape_exact) (simp_all add: mult_ac del: of_nat_mult)
    then show ?thesis by (simp del: of_nat_mult) simp
  qed
  show ?thesis
    using p rs by (simp add: Let_def vo hd q_def[symmetric] del: of_nat_mult)
qed

lemma patch_embedding_layer_shape:
  assumes "0 < np" and "0 < e" and "nat np = n"
  shows "layer_shape (PatchEmbeddingLayer np e) [[b, n, pd]] = Inr [b, n, nat e]"
  using assms by (simp add: dense_shape_def broadcast_def not_less)

lemma transformer_blocks_valid:
  assumes n: "0 < n" and e: "0 < embedding_dim hp" and h: "0 < num_heads hp"
    and dv: "embedding_dim hp mod num_heads hp = 0" and k: "0 < dim_coefficient hp"
    and m: "0 \<le> mlp_dim hp"
    and ra: "0 \<le> attention_dropout hp" "attention_dropout hp < 1"
    and rp: "0 \<le> projection_dropout hp" "projection_dropout hp < 1"
    and atype: "atype = ''external_attention'' \<or> atype = ''self_attention''"
  shows "shape x = [b, n, nat (embedding_dim hp)] \<Longrightarrow>
    \<exists>t. transformer_blocks i hp atype x = Inr t \<and> shape t = [b, n, nat (embedding_dim hp)]"
proof (induction i arbitrary: x)
  case 0
  then show ?case by simp
next
  case (Suc i)
  obtain y where y: "transformer_encoder x (embedding_dim hp) (mlp_dim hp) (num_heads hp)
      (dim_coefficient hp) (attention_dropout hp) (projection_dropout hp) atype = Inr y"
    and sy: "shape y = [b, n, nat (embedding_dim hp)]"
    using transformer_encoder_valid[OF Suc.prems n e h dv k m ra rp atype] by blast
  show ?case using Suc.IH[OF sy] by (simp add: y)
qed

lemma get_model_valid:
  assumes inp: "input_shape hp = [side, side, c]"
    and p: "0 < patch_size hp" and dv: "nat (patch_size hp) dvd side" and side: "0 < side"
    and np: "num_patches hp = (int side div patch_size hp) ^ 2"
    and e: "0 < embedding_dim hp" and h: "0 < num_heads hp"
    and dvh: "embedding_dim hp mod num_heads hp = 0" and k: "0 < dim_coefficient hp"
    and m: "0 \<le> mlp_dim hp"
    and ra: "0 \<le> attention_dropout hp" "attention_dropout hp < 1"
    and rp: "0 \<le> projection_dropout hp" "projection_dropout hp < 1"
    and nc: "0 \<le> num_classes hp"
    and atype: "atype = ''external_attention'' \<or> atype = ''self_attention''"
  shows "\<exists>t. get_model hp atype b = Inr t \<and> shape t = [b, nat (num_classes hp)]"
proof -
  define q where "q = nat (patch_size hp)"
  define n where "n = (side div q) * (side div q)"
  have q: "0 < q" using p by (simp add: q_def)
  have sq: "0 < side div q" using dv side q unfolding q_def
    by (simp add: dvd_imp_le div_greater_zero_iff)
  have n: "0 < n" using sq by (simp add: n_def)
  have npn: "nat (num_patches hp) = n"
  proof -
    have "int side div patch_size hp = int (side div q)"
      using p by (simp add: q_def zdiv_int)
    then show ?thesis by (simp add: np n_def power2_eq_square nat_mult_distrib)
  qed
  have npos: "0 < num_patches hp" using npn n by linarith
  obtain x1 where x1: "data_augmentation (Input_layer (b # input_shape hp)) = Inr x1"
    and s1: "shape x1 = [b, side, side, c]"
    using data_augmentation_valid[of "Input_layer (b # input_shape hp)"] inp
    by (auto simp: Input_layer_def)
  define x2 where "x2 = \<lparr>shape = [b, n, q * q * c],
      node = Call (PatchExtractLayer (patch_size hp)) [node x1]\<rparr>"
  have c2: "call (PatchExtractLayer (patch_size hp)) [x1] = Inr x2"
    using patch_extract_layer_shape[OF p dv, of b c] s1
    by (simp add: call_def x2_def n_def q_def)
  define x3 where "x3 = \<lparr>shape = [b, n, nat (embedding_dim hp)],
      node = Call (PatchEmbeddingLayer (num_patches hp) (embedding_dim hp)) [node x2]\<rparr>"
  have c3: "call (PatchEmbeddingLayer (num_patches hp) (embedding_dim hp)) [x2] = Inr x3"
    using patch_embedding_layer_shape[OF npos _ npn, of "embedding_dim hp" b "q * q * c"] e
    by (simp add: call_def x2_def x3_def)
  have s3: "shape x3 = [b, n, nat (embedding_dim hp)]" by (simp add: x3_def)
  obtain x4 where c4: "transformer_blocks (nat (num_transformer_blocks hp)) hp atype x3 = Inr x4"
    and s4: "shape x4 = [b, n, nat (embedding_dim hp)]"
    using transformer_blocks_valid[OF n e h dvh k m ra rp atype s3] by blast
  have c5: "call GlobalAvgPool1D [x4]
      = Inr \<lparr>shape = [b, nat (embedding_dim hp)], node = Call GlobalAvgPool1D [node x4]\<rparr>"
    using s4 by (simp add: call_def)
  show ?thesis
    using nc unfolding get_model_def Let_def
    by (simp only: x1 bindE_Inr c2 c3 c4 c5) (simp add: call_def dense_shape_def not_less)
qed

end
